theory Spec2Isabelle
  imports Main
begin

section \<open>Strings layer: byte views, code points, decoded items, rope\<close>

text \<open>
  The source buffer is a list of bytes; a \<open>strings::View\<close> is a pair of iterators into
  it, modelled as offsets. The null iterator \<open>View::It{}\<close> is \<open>None\<close> where the source
  tests for it (\<open>extractBlockLines\<close>).
\<close>

type_synonym Buffer = "char list"

datatype View = View (vbegin: nat) (vend: nat)

definition viewBytes :: "Buffer \<Rightarrow> View \<Rightarrow> char list" where
  "viewBytes buf v = take (vend v - vbegin v) (drop (vbegin v) buf)"

definition byteCount :: "View \<Rightarrow> nat" where
  "byteCount v = vend v - vbegin v"

definition isPartOf :: "View \<Rightarrow> View \<Rightarrow> bool" where
  "isPartOf v other = (vbegin other \<le> vbegin v \<and> vend v \<le> vend other)"

datatype CodePoint = CodePoint (cp_v: nat)

text \<open>
  Modelled from the spec: the classification predicates of \<open>strings::CodePoint\<close>
  (\<open>strings/CodePoint.h\<close> is not part of the sources at hand). The spec names them only;
  the ranges are those of the Unicode standard. No general theorem below unfolds them.
\<close>

definition isControl :: "CodePoint \<Rightarrow> bool" where
  "isControl cp = (cp_v cp < 0x20 \<or> (0x7F \<le> cp_v cp \<and> cp_v cp \<le> 0x9F))"

text \<open>Modelled from the spec: \<open>CodePoint::isSurrogate\<close>, the surrogate range.\<close>

definition isSurrogate :: "CodePoint \<Rightarrow> bool" where
  "isSurrogate cp = (0xD800 \<le> cp_v cp \<and> cp_v cp \<le> 0xDFFF)"

text \<open>Modelled from the spec: \<open>CodePoint::isNonCharacter\<close>, the noncharacters of Unicode.\<close>

definition isNonCharacter :: "CodePoint \<Rightarrow> bool" where
  "isNonCharacter cp =
     ((0xFDD0 \<le> cp_v cp \<and> cp_v cp \<le> 0xFDEF) \<or> 0xFFFE \<le> cp_v cp mod 0x10000)"

text \<open>Modelled from the spec: \<open>CodePoint::isCombiningMark\<close>, the blocks of combining marks.\<close>

definition isCombiningMark :: "CodePoint \<Rightarrow> bool" where
  "isCombiningMark cp =
     ((0x0300 \<le> cp_v cp \<and> cp_v cp \<le> 0x036F) \<or> (0x1AB0 \<le> cp_v cp \<and> cp_v cp \<le> 0x1AFF)
      \<or> (0x1DC0 \<le> cp_v cp \<and> cp_v cp \<le> 0x1DFF) \<or> (0x20D0 \<le> cp_v cp \<and> cp_v cp \<le> 0x20FF)
      \<or> (0xFE20 \<le> cp_v cp \<and> cp_v cp \<le> 0xFE2F))"

datatype Decoded = DecodedCodePoint View CodePoint | DecodedError View

text \<open>
  Modelled from the spec: \<open>strings::utf8Decode\<close> (\<open>strings/utf8Decode.h\<close> is not part of
  the sources at hand). Section 6 of the spec asks for a sequence of items in input
  order, each with the view of the bytes it consumed, and a \<open>DecodedError\<close> for every
  sequence that is not the encoding of a Unicode scalar value: a byte that cannot lead
  a sequence, a sequence cut short by a byte that is no continuation byte or by the end
  of the view, an overlong encoding, an encoded surrogate, and a value above U+10FFFF.
  An error covers the bytes read for it.
\<close>

text \<open>Modelled from the spec: a continuation byte of the decoder, \<open>10xxxxxx\<close>.\<close>

definition isContinuation :: "char \<Rightarrow> bool" where
  "isContinuation c = (0x80 \<le> (of_char c :: nat) \<and> (of_char c :: nat) < 0xC0)"

text \<open>Modelled from the spec: the decoder reading \<open>n\<close> continuation bytes; it returns how many
  bytes it consumed and the value, if none of them is missing.\<close>

fun takeContinuation :: "nat \<Rightarrow> nat \<Rightarrow> char list \<Rightarrow> nat \<times> nat option" where
  "takeContinuation 0 acc bs = (0, Some acc)"
| "takeContinuation (Suc n) acc [] = (0, None)"
| "takeContinuation (Suc n) acc (c # bs) =
     (if isContinuation c
      then (case takeContinuation n (acc * 64 + ((of_char c :: nat) - 0x80)) bs of
              (k, r) \<Rightarrow> (Suc k, r))
      else (1, None))"

text \<open>Modelled from the spec: the values a sequence with \<open>n\<close> continuation bytes may encode:
  no value that a shorter sequence encodes, no surrogate, nothing above U+10FFFF.\<close>

definition isScalarOfLength :: "nat \<Rightarrow> nat \<Rightarrow> bool" where
  "isScalarOfLength n v =
     (if n = 1 then 0x80 \<le> v
      else if n = 2 then 0x800 \<le> v \<and> \<not> (0xD800 \<le> v \<and> v \<le> 0xDFFF)
      else 0x10000 \<le> v \<and> v \<le> 0x10FFFF)"

text \<open>Modelled from the spec: a sequence of a lead byte and \<open>n\<close> continuation bytes; the
  value it encodes, or an error over the bytes read.\<close>

definition decodeSequence :: "nat \<Rightarrow> nat \<Rightarrow> char list \<Rightarrow> nat \<times> nat option" where
  "decodeSequence n acc bs =
     (case takeContinuation n acc bs of
        (k, Some v) \<Rightarrow> if isScalarOfLength n v then (k, Some v) else (k, None)
      | (k, None) \<Rightarrow> (k, None))"

text \<open>Modelled from the spec: the decoder on one lead byte and the bytes after it.\<close>

definition decodeOne :: "char \<Rightarrow> char list \<Rightarrow> nat \<times> nat option" where
  "decodeOne c0 bs =
     (let b = (of_char c0 :: nat) in
      if b < 0x80 then (0, Some b)
      else if 0xC0 \<le> b \<and> b < 0xE0 then decodeSequence 1 (b - 0xC0) bs
      else if 0xE0 \<le> b \<and> b < 0xF0 then decodeSequence 2 (b - 0xE0) bs
      else if 0xF0 \<le> b \<and> b < 0xF8 then decodeSequence 3 (b - 0xF0) bs
      else (0, None))"

text \<open>Modelled from the spec: the items of the decoder from offset \<open>p\<close> on.\<close>

function utf8DecodeAt :: "nat \<Rightarrow> char list \<Rightarrow> Decoded list" where
  "utf8DecodeAt p [] = []"
| "utf8DecodeAt p (c0 # bs) =
     (let k = fst (decodeOne c0 bs);
          input = View p (p + Suc k)
      in (case snd (decodeOne c0 bs) of
            Some v \<Rightarrow> DecodedCodePoint input (CodePoint v)
          | None \<Rightarrow> DecodedError input)
         # utf8DecodeAt (p + Suc k) (drop k bs))"
  by pat_completeness auto
termination
  by (relation "measure (\<lambda>(p, bs). length bs)") auto

text \<open>Modelled from the spec: \<open>strings::utf8Decode\<close> on a view of the buffer.\<close>

definition utf8Decode :: "Buffer \<Rightarrow> View \<Rightarrow> Decoded list" where
  "utf8Decode buf view = utf8DecodeAt (vbegin view) (viewBytes buf view)"

text \<open>
  Modelled from the spec: \<open>CodePoint::utf8_encode\<close>, used when the rope holds a code
  point (its source is not at hand). The escaper only ever appends the backslash.
\<close>

definition utf8Encode :: "CodePoint \<Rightarrow> char list" where
  "utf8Encode cp =
     (let v = cp_v cp in
      if v < 0x80 then [char_of v]
      else if v < 0x800 then [char_of (0xC0 + v div 64), char_of (0x80 + v mod 64)]
      else if v < 0x10000 then
        [char_of (0xE0 + v div 4096), char_of (0x80 + (v div 64) mod 64), char_of (0x80 + v mod 64)]
      else
        [char_of (0xF0 + v div 262144), char_of (0x80 + (v div 4096) mod 64),
         char_of (0x80 + (v div 64) mod 64), char_of (0x80 + v mod 64)])"

text \<open>\<open>strings::rope\<close> (\<open>tools/strings/rope.h\<close>): a list of pieces, flattened once.\<close>

datatype RopeElement = RopeCodePoint CodePoint | RopeString "char list" | RopeView View

type_synonym Rope = "RopeElement list"

definition ropeAddCodePoint :: "CodePoint \<Rightarrow> Rope \<Rightarrow> Rope" where
  "ropeAddCodePoint c r = r @ [RopeCodePoint c]"

definition ropeAddString :: "char list \<Rightarrow> Rope \<Rightarrow> Rope" where
  "ropeAddString s r = (if s \<noteq> [] then r @ [RopeString s] else r)"

definition ropeAddView :: "Buffer \<Rightarrow> View \<Rightarrow> Rope \<Rightarrow> Rope" where
  "ropeAddView buf v r = (if viewBytes buf v \<noteq> [] then r @ [RopeView v] else r)"

fun elementBytes :: "Buffer \<Rightarrow> RopeElement \<Rightarrow> char list" where
  "elementBytes buf (RopeCodePoint c) = utf8Encode c"
| "elementBytes buf (RopeString s) = s"
| "elementBytes buf (RopeView v) = viewBytes buf v"

definition to_string :: "Buffer \<Rightarrow> Rope \<Rightarrow> char list" where
  "to_string buf r = concat (map (elementBytes buf) r)"

section \<open>The source escaper\<close>

text \<open>\<open>diagnostic::TextSpan\<close>: two \<open>int\<close> fields; \<open>-1\<close> is the sentinel.\<close>

record TextSpan =
  start :: int
  length_span :: int

record EscapedMarkers =
  escaped :: "char list"
  markers :: "TextSpan list"

text \<open>
  What \<open>operator<<\<close> prints for an \<open>int\<close> under \<open>std::hex\<close>: lowercase digits, most
  significant first, no padding.
\<close>

definition hexDigit :: "nat \<Rightarrow> char" where
  "hexDigit d = ''0123456789abcdef'' ! d"

fun hexStr :: "nat \<Rightarrow> char list" where
  "hexStr n = (if n < 16 then [hexDigit n] else hexStr (n div 16) @ [hexDigit (n mod 16)])"

declare hexStr.simps [simp del]

text \<open>
  The body of the lambda \<open>addEscaped\<close> between its two appends: the text written to the
  string stream, and whether \<open>requiresEscapes\<close> is set on the way.
\<close>

definition backslash :: char where
  "backslash = CHR 0x5C"

definition escapedText :: "char list \<Rightarrow> char list \<times> bool" where
  "escapedText bytes =
     (case bytes of
        [c] \<Rightarrow>
          (if c = CHR 0x0A then ([backslash, CHR ''n'', CHR 0x0A], False)
           else if c = CHR 0x0D then ([backslash, CHR ''r''], True)
           else if c = CHR 0x09 then ([backslash, CHR ''t''], True)
           else if c = CHR 0x00 then ([backslash, CHR ''0''], True)
           else ([backslash, CHR ''[''] @ hexStr (of_char c) @ '']'', True))
      | _ \<Rightarrow> ([backslash, CHR ''[''] @ concat (map (\<lambda>x. hexStr (of_char x)) bytes) @ '']'', True))"

record EscState =
  es_output :: Rope
  es_markers :: "TextSpan list"
  es_begin :: nat
  es_offset :: int
  es_requiresEscapes :: bool

definition updateMarker :: "nat \<Rightarrow> int \<Rightarrow> View \<Rightarrow> TextSpan \<Rightarrow> TextSpan" where
  "updateMarker p off vm m =
     (let m1 = (if vbegin vm \<le> p \<and> start m = -1 then m\<lparr>start := off\<rparr> else m)
      in if vend vm \<le> p \<and> length_span m1 = -1 then m1\<lparr>length_span := off - start m1\<rparr> else m1)"

definition updateMarkers :: "View list \<Rightarrow> nat \<Rightarrow> EscState \<Rightarrow> EscState" where
  "updateMarkers viewMarkers p st =
     st\<lparr>es_markers := map2 (updateMarker p (es_offset st)) viewMarkers (es_markers st)\<rparr>"

definition addEscaped :: "Buffer \<Rightarrow> View \<Rightarrow> EscState \<Rightarrow> EscState" where
  "addEscaped buf input st =
     (let out1 = ropeAddView buf (View (es_begin st) (vbegin input)) (es_output st);
          str = fst (escapedText (viewBytes buf input));
          req = snd (escapedText (viewBytes buf input))
      in st\<lparr>es_output := ropeAddString str out1,
            es_begin := vend input,
            es_offset := es_offset st + int (length str),
            es_requiresEscapes := (es_requiresEscapes st \<or> req)\<rparr>)"

definition isEscapedClass :: "CodePoint \<Rightarrow> bool" where
  "isEscapedClass cp = (isCombiningMark cp \<or> isControl cp \<or> isNonCharacter cp \<or> isSurrogate cp)"

fun escapeItem :: "Buffer \<Rightarrow> View list \<Rightarrow> EscState \<Rightarrow> Decoded \<Rightarrow> EscState" where
  "escapeItem buf viewMarkers st (DecodedCodePoint input cp) =
     (let st1 = updateMarkers viewMarkers (vbegin input) st in
      if isEscapedClass cp then addEscaped buf input st1
      else if cp_v cp = 0x5C then
        st1\<lparr>es_output := ropeAddCodePoint cp
                (ropeAddView buf (View (es_begin st1) (vend input)) (es_output st1)),
            es_begin := vend input,
            es_offset := es_offset st1 + 1 + 1\<rparr>
      else st1\<lparr>es_offset := es_offset st1 + 1\<rparr>)"
| "escapeItem buf viewMarkers st (DecodedError input) =
     addEscaped buf input (updateMarkers viewMarkers (vbegin input) st)"

definition escapeInit :: "View \<Rightarrow> View list \<Rightarrow> EscState" where
  "escapeInit view viewMarkers =
     \<lparr>es_output = [],
      es_markers = replicate (length viewMarkers) \<lparr>start = -1, length_span = -1\<rparr>,
      es_begin = vbegin view, es_offset = 0, es_requiresEscapes = False\<rparr>"

text \<open>
  The loop after the decoding loop, taken when \<open>requiresEscapes\<close> stayed false: the index
  \<open>i\<close> is declared before it and never advanced, so every round writes \<open>markers[0]\<close>.
\<close>

definition rawSpan :: "View \<Rightarrow> View \<Rightarrow> TextSpan" where
  "rawSpan view vm = \<lparr>start = int (vbegin vm) - int (vbegin view), length_span = int (byteCount vm)\<rparr>"

definition unescapedMarkers :: "View \<Rightarrow> View list \<Rightarrow> TextSpan list \<Rightarrow> TextSpan list" where
  "unescapedMarkers view viewMarkers ms = foldl (\<lambda>ms vm. ms[0 := rawSpan view vm]) ms viewMarkers"

definition escapeItems :: "Buffer \<Rightarrow> View \<Rightarrow> View list \<Rightarrow> Decoded list \<Rightarrow> EscapedMarkers" where
  "escapeItems buf view viewMarkers items =
     (let st = foldl (escapeItem buf viewMarkers) (escapeInit view viewMarkers) items;
          out = ropeAddView buf (View (es_begin st) (vend view)) (es_output st);
          st' = updateMarkers viewMarkers (vend view) st
      in if \<not> es_requiresEscapes st'
         then \<lparr>escaped = viewBytes buf view,
               markers = unescapedMarkers view viewMarkers (es_markers st')\<rparr>
         else \<lparr>escaped = to_string buf out, markers = es_markers st'\<rparr>)"

definition escapeSourceLine :: "Buffer \<Rightarrow> View \<Rightarrow> View list \<Rightarrow> EscapedMarkers" where
  "escapeSourceLine buf view viewMarkers = escapeItems buf view viewMarkers (utf8Decode buf view)"

section \<open>Tokens and block lines\<close>

text \<open>
  Only the fields the reporters read are kept. Elements that carry errors have, in this
  order: \<open>input\<close>, \<open>position.line\<close>, \<open>isTainted\<close> and, where the type has them, the
  errors. The width of \<open>text::Line\<close> is declared outside the sources at hand; lines
  are \<open>int\<close>. \<open>scanner::DecodedErrorPosition\<close> is an alternative of three error variants
  and has one constructor in each.
\<close>

datatype NewlineError = NewlineDecodedErrorPosition View | MixedIndentCharacter View

datatype Kind =
  Kind_EndOfInput | Kind_InvalidEncoding | Kind_InvalidEscape | Kind_InvalidControl
  | Kind_InvalidDecimalUnicode | Kind_InvalidHexUnicode

datatype StringError = StringError (kind: Kind) (errorInput: View)

datatype NumberLiteralError =
  NumberDecodedErrorPosition View | NumberMissingExponent View | NumberMissingValue View
  | NumberMissingBoundary View

datatype OperatorLiteralError =
  OperatorDecodedErrorPosition View | OperatorWrongClose View | OperatorUnexpectedClose View
  | OperatorNotClosed View

datatype Insignificant =
  CommentLiteral View int bool "View list"
  | WhiteSpaceSeparator View
  | InvalidEncoding View int bool
  | UnexpectedCharacter View int bool
  | SemicolonSeparator View
  | NewLineIndentation View int bool "NewlineError list"
  | BlockStartColon View
  | BlockEndIdentifier View
  | UnexpectedColon View
  | UnexpectedIndent View
  | UnexpectedTokensAfterEnd View
  | UnexpectedBlockEnd View
  | MissingBlockEnd View
  | MisIndentedBlockEnd View

datatype Token =
  BlockLiteral View
  | ColonSeparator View
  | CommaSeparator View
  | SquareBracketOpen View
  | SquareBracketClose View
  | BracketOpen View
  | BracketClose View
  | StringLiteral View int bool "StringError list"
  | NumberLiteral View int bool "NumberLiteralError list"
  | IdentifierLiteral View int bool "View list"
  | OperatorLiteral View int bool "OperatorLiteralError list"

record BlockLine =
  tokens :: "Token list"
  insignificants :: "Insignificant list"

fun insignificantInput :: "Insignificant \<Rightarrow> View" where
  "insignificantInput (CommentLiteral i l t es) = i"
| "insignificantInput (WhiteSpaceSeparator i) = i"
| "insignificantInput (InvalidEncoding i l t) = i"
| "insignificantInput (UnexpectedCharacter i l t) = i"
| "insignificantInput (SemicolonSeparator i) = i"
| "insignificantInput (NewLineIndentation i l t es) = i"
| "insignificantInput (BlockStartColon i) = i"
| "insignificantInput (BlockEndIdentifier i) = i"
| "insignificantInput (UnexpectedColon i) = i"
| "insignificantInput (UnexpectedIndent i) = i"
| "insignificantInput (UnexpectedTokensAfterEnd i) = i"
| "insignificantInput (UnexpectedBlockEnd i) = i"
| "insignificantInput (MissingBlockEnd i) = i"
| "insignificantInput (MisIndentedBlockEnd i) = i"

fun tokenInput :: "Token \<Rightarrow> View" where
  "tokenInput (BlockLiteral i) = i"
| "tokenInput (ColonSeparator i) = i"
| "tokenInput (CommaSeparator i) = i"
| "tokenInput (SquareBracketOpen i) = i"
| "tokenInput (SquareBracketClose i) = i"
| "tokenInput (BracketOpen i) = i"
| "tokenInput (BracketClose i) = i"
| "tokenInput (StringLiteral i l t es) = i"
| "tokenInput (NumberLiteral i l t es) = i"
| "tokenInput (IdentifierLiteral i l t es) = i"
| "tokenInput (OperatorLiteral i l t es) = i"

text \<open>The flag \<open>isTainted\<close> of an element; elements without the flag count as clean.\<close>

fun insignificantTainted :: "Insignificant \<Rightarrow> bool" where
  "insignificantTainted (CommentLiteral i l t es) = t"
| "insignificantTainted (InvalidEncoding i l t) = t"
| "insignificantTainted (UnexpectedCharacter i l t) = t"
| "insignificantTainted (NewLineIndentation i l t es) = t"
| "insignificantTainted _ = False"

fun tokenTainted :: "Token \<Rightarrow> bool" where
  "tokenTainted (StringLiteral i l t es) = t"
| "tokenTainted (NumberLiteral i l t es) = t"
| "tokenTainted (IdentifierLiteral i l t es) = t"
| "tokenTainted (OperatorLiteral i l t es) = t"
| "tokenTainted _ = False"

text \<open>
  What \<open>const_cast<...>(x).isTainted = true\<close> does to an element. An element is
  known to the reporters by its address; the model names it by the vector it lives in
  and its index there.
\<close>

fun taint :: "Insignificant \<Rightarrow> Insignificant" where
  "taint (CommentLiteral i l t es) = CommentLiteral i l True es"
| "taint (InvalidEncoding i l t) = InvalidEncoding i l True"
| "taint (UnexpectedCharacter i l t) = UnexpectedCharacter i l True"
| "taint (NewLineIndentation i l t es) = NewLineIndentation i l True es"
| "taint x = x"

datatype ElemRef = TokenRef nat | InsignificantRef nat

text \<open>
  \<open>BlockLine::forEach\<close>: the order in which the callback receives the elements. The
  callbacks of this development change no \<open>input\<close> and no vector, so the order is fixed
  by the block line the loop starts with.
\<close>

fun forEachFrom :: "nat \<Rightarrow> nat \<Rightarrow> Token list \<Rightarrow> Insignificant list \<Rightarrow> ElemRef list" where
  "forEachFrom j k (t # ts) (i # is) =
     (if vbegin (tokenInput t) < vbegin (insignificantInput i)
      then TokenRef j # forEachFrom (Suc j) k ts (i # is)
      else InsignificantRef k # forEachFrom j (Suc k) (t # ts) is)"
| "forEachFrom j k (t # ts) [] = TokenRef j # forEachFrom (Suc j) k ts []"
| "forEachFrom j k [] (i # is) = InsignificantRef k # forEachFrom j (Suc k) [] is"
| "forEachFrom j k [] [] = []"

definition forEach :: "BlockLine \<Rightarrow> ElemRef list" where
  "forEach bl = forEachFrom 0 0 (tokens bl) (insignificants bl)"

fun refBegin :: "BlockLine \<Rightarrow> ElemRef \<Rightarrow> nat" where
  "refBegin bl (TokenRef j) = vbegin (tokenInput (tokens bl ! j))"
| "refBegin bl (InsignificantRef k) = vbegin (insignificantInput (insignificants bl ! k))"

section \<open>Line extent\<close>

definition extractBlockLines :: "BlockLine \<Rightarrow> View" where
  "extractBlockLines blockLine =
     (let b0 = (if tokens blockLine \<noteq> [] then Some (vbegin (tokenInput (hd (tokens blockLine))))
                else None);
          e0 = (if tokens blockLine \<noteq> [] then Some (vend (tokenInput (last (tokens blockLine))))
                else None);
          b1 = (if insignificants blockLine \<noteq> [] then
                  (let begin2 = vbegin (insignificantInput (hd (insignificants blockLine)))
                   in case b0 of None \<Rightarrow> Some begin2
                      | Some b \<Rightarrow> if begin2 < b then Some begin2 else Some b)
                else b0);
          e1 = (if insignificants blockLine \<noteq> [] then
                  (let end2 = vend (insignificantInput (last (insignificants blockLine)))
                   in case e0 of None \<Rightarrow> Some end2
                      | Some e \<Rightarrow> if e < end2 then Some end2 else Some e)
                else e0)
      in View (case b1 of None \<Rightarrow> 0 | Some b \<Rightarrow> b) (case e1 of None \<Rightarrow> 0 | Some e \<Rightarrow> e))"

text \<open>
  The two loops of \<open>extractViewLines\<close> read \<open>begin[-1]\<close> and \<open>end[0]\<close>. All views lie
  inside the buffer (section 3 of the spec), so the source reads inside it; the model
  ends the scan at the border of the buffer.
\<close>

definition isLineBreakAt :: "Buffer \<Rightarrow> nat \<Rightarrow> bool" where
  "isLineBreakAt buf i = (length buf \<le> i \<or> buf ! i = CHR 0x0D \<or> buf ! i = CHR 0x0A)"

function lineBegin :: "Buffer \<Rightarrow> nat \<Rightarrow> nat \<Rightarrow> nat" where
  "lineBegin buf lo b = (if lo < b \<and> \<not> isLineBreakAt buf (b - 1) then lineBegin buf lo (b - 1) else b)"
  by pat_completeness auto
termination
  by (relation "measure (\<lambda>(buf, lo, b). b)") auto

function lineEnd :: "Buffer \<Rightarrow> nat \<Rightarrow> nat \<Rightarrow> nat" where
  "lineEnd buf hi e = (if e < hi \<and> \<not> isLineBreakAt buf e then lineEnd buf hi (Suc e) else e)"
  by pat_completeness auto
termination
  by (relation "measure (\<lambda>(buf, hi, e). hi - e)") auto

declare lineBegin.simps [simp del] lineEnd.simps [simp del]

definition extractViewLines :: "Buffer \<Rightarrow> BlockLine \<Rightarrow> View \<Rightarrow> View" where
  "extractViewLines buf blockLine view =
     (let all = extractBlockLines blockLine
      in View (lineBegin buf (vbegin all) (vbegin view)) (lineEnd buf (vend all) (vend view)))"

section \<open>Diagnostics\<close>

datatype Code = Code (category: string) (number: nat)

datatype Marker = Marker (span: TextSpan) (annotations: "string list")

datatype DocumentPart =
  Paragraph string
  | SourceCodeBlock (blockText: string) (highlights: "Marker list") (caption: string) (originLine: int)

datatype Explanation = Explanation (heading: string) (document: "DocumentPart list")

datatype Diagnostic = Diagnostic (code: Code) (parts: "Explanation list")

text \<open>
  The shape every reporter builds: the escaped lines with one highlight per span, under
  one paragraph, in a diagnostic of one part.
\<close>

definition toHighlights :: "TextSpan list \<Rightarrow> Marker list" where
  "toHighlights escapedMarkers = map (\<lambda>m. Marker m []) escapedMarkers"

definition makeDiagnostic :: "nat \<Rightarrow> string \<Rightarrow> string \<Rightarrow> EscapedMarkers \<Rightarrow> int \<Rightarrow> Diagnostic" where
  "makeDiagnostic n head para em line =
     Diagnostic (Code ''rebuild-lexer'' n)
       [Explanation head
          [Paragraph para, SourceCodeBlock (escaped em) (toHighlights (markers em)) [] line]]"

section \<open>Marker collectors\<close>

text \<open>
  Each collector is a loop over \<open>blockLine.insignificants\<close> whose body adds markers and
  may taint the element it visits, unless that element is \<open>tok\<close>. \<open>forInsignificants\<close>
  is that loop; the body gets \<open>&t != tok\<close> and the element, and returns the markers to
  append and the element as it is left.
\<close>

fun forInsignificants ::
  "(bool \<Rightarrow> Insignificant \<Rightarrow> View list \<times> Insignificant) \<Rightarrow> nat \<Rightarrow> ElemRef
    \<Rightarrow> Insignificant list \<Rightarrow> View list \<Rightarrow> View list \<times> Insignificant list" where
  "forInsignificants body k tok [] viewMarkers = (viewMarkers, [])"
| "forInsignificants body k tok (t # ts) viewMarkers =
     (case body (InsignificantRef k \<noteq> tok) t of
        (new, t') \<Rightarrow>
          (case forInsignificants body (Suc k) tok ts (viewMarkers @ new) of
             (viewMarkers', ts') \<Rightarrow> (viewMarkers', t' # ts')))"

definition collectWith ::
  "(bool \<Rightarrow> Insignificant \<Rightarrow> View list \<times> Insignificant) \<Rightarrow> View list \<Rightarrow> BlockLine \<Rightarrow> ElemRef
    \<Rightarrow> View list \<times> BlockLine" where
  "collectWith body viewMarkers blockLine tok =
     (case forInsignificants body 0 tok (insignificants blockLine) viewMarkers of
        (viewMarkers', ts') \<Rightarrow> (viewMarkers', blockLine\<lparr>insignificants := ts'\<rparr>))"

fun decodedErrorInputs :: "NewlineError list \<Rightarrow> View list" where
  "decodedErrorInputs [] = []"
| "decodedErrorInputs (NewlineDecodedErrorPosition v # errs) = v # decodedErrorInputs errs"
| "decodedErrorInputs (MixedIndentCharacter v # errs) = decodedErrorInputs errs"

fun mixedIndentInputs :: "NewlineError list \<Rightarrow> View list" where
  "mixedIndentInputs [] = []"
| "mixedIndentInputs (NewlineDecodedErrorPosition v # errs) = mixedIndentInputs errs"
| "mixedIndentInputs (MixedIndentCharacter v # errs) = v # mixedIndentInputs errs"

fun holdsDecodedErrorPosition :: "NewlineError \<Rightarrow> bool" where
  "holdsDecodedErrorPosition (NewlineDecodedErrorPosition v) = True"
| "holdsDecodedErrorPosition (MixedIndentCharacter v) = False"

fun holdsMixedIndentCharacter :: "NewlineError \<Rightarrow> bool" where
  "holdsMixedIndentCharacter (NewlineDecodedErrorPosition v) = False"
| "holdsMixedIndentCharacter (MixedIndentCharacter v) = True"

text \<open>
  The body of the loop of \<open>collectDecodeErrorMarkers\<close>. Its third lambda takes an
  \<open>IdentifierLiteral\<close>, which is no alternative of \<open>Insignificant\<close>: \<open>visitSome\<close> never
  calls it on an element of \<open>blockLine.insignificants\<close>, so it has no equation here.
\<close>

fun collectDecodeErrorsOf :: "View \<Rightarrow> bool \<Rightarrow> Insignificant \<Rightarrow> View list \<times> Insignificant" where
  "collectDecodeErrorsOf tokenLines notTok (InvalidEncoding i l t) =
     (if t \<or> \<not> isPartOf i tokenLines then ([], InvalidEncoding i l t)
      else ([i], if notTok then InvalidEncoding i l True else InvalidEncoding i l t))"
| "collectDecodeErrorsOf tokenLines notTok (CommentLiteral i l t decodeErrors) =
     (if t \<or> \<not> isPartOf i tokenLines then ([], CommentLiteral i l t decodeErrors)
      else (decodeErrors,
            if notTok then CommentLiteral i l True decodeErrors else CommentLiteral i l t decodeErrors))"
| "collectDecodeErrorsOf tokenLines notTok (NewLineIndentation i l t errs) =
     (if t \<or> \<not> isPartOf i tokenLines then ([], NewLineIndentation i l t errs)
      else if \<not> list_all holdsDecodedErrorPosition errs then ([], NewLineIndentation i l t errs)
      else (decodedErrorInputs errs,
            if notTok then NewLineIndentation i l True errs else NewLineIndentation i l t errs))"
| "collectDecodeErrorsOf tokenLines notTok x = ([], x)"

definition collectDecodeErrorMarkers ::
  "View list \<Rightarrow> BlockLine \<Rightarrow> View \<Rightarrow> ElemRef \<Rightarrow> View list \<times> BlockLine" where
  "collectDecodeErrorMarkers viewMarkers blockLine tokenLines tok =
     collectWith (collectDecodeErrorsOf tokenLines) viewMarkers blockLine tok"

text \<open>The loop over the other newlines in the second block of \<open>reportNewline\<close>.\<close>

fun collectMixedIndentOf :: "View \<Rightarrow> bool \<Rightarrow> Insignificant \<Rightarrow> View list \<times> Insignificant" where
  "collectMixedIndentOf tokenLines notTok (NewLineIndentation i l t errs) =
     (if t \<or> \<not> isPartOf i tokenLines then ([], NewLineIndentation i l t errs)
      else if \<not> list_all holdsMixedIndentCharacter errs then ([], NewLineIndentation i l t errs)
      else (mixedIndentInputs errs,
            if notTok then NewLineIndentation i l True errs else NewLineIndentation i l t errs))"
| "collectMixedIndentOf tokenLines notTok x = ([], x)"

text \<open>The loop of \<open>reportUnexpectedCharacter\<close>; it does not look at \<open>isTainted\<close>.\<close>

fun collectUnexpectedOf :: "View \<Rightarrow> bool \<Rightarrow> Insignificant \<Rightarrow> View list \<times> Insignificant" where
  "collectUnexpectedOf tokenLines notTok (UnexpectedCharacter i l t) =
     (if vbegin tokenLines \<le> vbegin i \<and> vend i \<le> vend tokenLines
      then ([i], if notTok then UnexpectedCharacter i l True else UnexpectedCharacter i l t)
      else ([], UnexpectedCharacter i l t))"
| "collectUnexpectedOf tokenLines notTok x = ([], x)"

section \<open>Reporters\<close>

text \<open>
  A reporter returns the block line as it leaves it and the diagnostics it hands to
  \<open>context.reportDiagnostic\<close>, in order. \<open>value.hasErrors()\<close> is declared outside the
  sources at hand and read as \<open>errors\<close> not being empty.
\<close>

definition reportDecodeErrorMarkers :: "Buffer \<Rightarrow> int \<Rightarrow> View \<Rightarrow> View list \<Rightarrow> Diagnostic" where
  "reportDecodeErrorMarkers buf line tokenLines viewMarkers =
     makeDiagnostic 1 ''Invalid UTF8 Encoding''
       (if length viewMarkers = 1 then ''The UTF8-decoder encountered an invalid encoding''
        else ''The UTF8-decoder encountered multiple invalid encodings'')
       (escapeSourceLine buf tokenLines viewMarkers) line"

definition reportDecodeErrors ::
  "Buffer \<Rightarrow> BlockLine \<Rightarrow> ElemRef \<Rightarrow> View \<Rightarrow> int \<Rightarrow> BlockLine \<times> Diagnostic list" where
  "reportDecodeErrors buf blockLine tok input line =
     (let tokenLines = extractViewLines buf blockLine input in
      case collectDecodeErrorMarkers [] blockLine tokenLines tok of
        (viewMarkers, blockLine') \<Rightarrow>
          (blockLine', [reportDecodeErrorMarkers buf line tokenLines viewMarkers]))"

definition reportTokenWithDecodeErrors ::
  "Buffer \<Rightarrow> BlockLine \<Rightarrow> ElemRef \<Rightarrow> View \<Rightarrow> int \<Rightarrow> bool \<Rightarrow> View list
    \<Rightarrow> BlockLine \<times> Diagnostic list" where
  "reportTokenWithDecodeErrors buf blockLine tok input line isTainted decodeErrors =
     (if isTainted \<or> decodeErrors = [] then (blockLine, [])
      else reportDecodeErrors buf blockLine tok input line)"

definition reportInvalidEncoding ::
  "Buffer \<Rightarrow> BlockLine \<Rightarrow> ElemRef \<Rightarrow> View \<Rightarrow> int \<Rightarrow> bool \<Rightarrow> BlockLine \<times> Diagnostic list" where
  "reportInvalidEncoding buf blockLine tok input line isTainted =
     (if isTainted then (blockLine, []) else reportDecodeErrors buf blockLine tok input line)"

definition reportNewline ::
  "Buffer \<Rightarrow> BlockLine \<Rightarrow> ElemRef \<Rightarrow> View \<Rightarrow> int \<Rightarrow> bool \<Rightarrow> NewlineError list
    \<Rightarrow> BlockLine \<times> Diagnostic list" where
  "reportNewline buf blockLine nli input line isTainted errors =
     (if isTainted \<or> errors = [] then (blockLine, [])
      else
        let tokenLines = extractViewLines buf blockLine input;
            own = decodedErrorInputs errors;
            first =
              (if own \<noteq> [] then
                 (case collectDecodeErrorMarkers
                         (if length own = length errors then [] else own) blockLine tokenLines nli of
                    (viewMarkers, blockLine') \<Rightarrow>
                      (blockLine', [reportDecodeErrorMarkers buf (line - 1) tokenLines viewMarkers]))
               else (blockLine, []));
            mixed = mixedIndentInputs errors
        in if mixed = [] then first
           else
             (case collectWith (collectMixedIndentOf tokenLines) mixed (fst first) nli of
                (viewMarkers, blockLine') \<Rightarrow>
                  (blockLine',
                   snd first @
                   [makeDiagnostic 3 ''Mixed Indentation Characters''
                      ''The indentation mixes tabs and spaces.''
                      (escapeSourceLine buf tokenLines viewMarkers) (line - 1)])))"

definition reportUnexpectedCharacter ::
  "Buffer \<Rightarrow> BlockLine \<Rightarrow> ElemRef \<Rightarrow> View \<Rightarrow> int \<Rightarrow> bool \<Rightarrow> BlockLine \<times> Diagnostic list" where
  "reportUnexpectedCharacter buf blockLine uc input line isTainted =
     (if isTainted then (blockLine, [])
      else
        let tokenLines = extractViewLines buf blockLine input in
        case collectWith (collectUnexpectedOf tokenLines) [] blockLine uc of
          (viewMarkers, blockLine') \<Rightarrow>
            (blockLine',
             [makeDiagnostic 2 ''Unexpected characters''
                (if length viewMarkers = 1
                 then ''The tokenizer encountered a character that is not part of any Rebuild language token.''
                 else ''The tokenizer encountered multiple characters that are not part of any Rebuild language token.'')
                (escapeSourceLine buf tokenLines viewMarkers) line]))"

subsection \<open>String literals\<close>

text \<open>
  The \<open>switch\<close> of \<open>reportStringLiteral\<close>. \<open>reportedKinds\<close> is a bit set indexed by the
  kind; the six kinds have six indices below eight, so the model keeps the set of kinds.
\<close>

fun stringDiagnostic :: "Buffer \<Rightarrow> int \<Rightarrow> View \<Rightarrow> View list \<Rightarrow> Kind \<Rightarrow> Diagnostic" where
  "stringDiagnostic buf line tokenLines viewMarkers Kind_EndOfInput =
     makeDiagnostic 10 ''Unexpected end of input'' ''The string was not terminated.''
       (escapeSourceLine buf tokenLines viewMarkers) line"
| "stringDiagnostic buf line tokenLines viewMarkers Kind_InvalidEncoding =
     reportDecodeErrorMarkers buf line tokenLines viewMarkers"
| "stringDiagnostic buf line tokenLines viewMarkers Kind_InvalidEscape =
     makeDiagnostic 11 ''Unkown escape sequence'' ''These Escape sequences are unknown.''
       (escapeSourceLine buf tokenLines viewMarkers) line"
| "stringDiagnostic buf line tokenLines viewMarkers Kind_InvalidControl =
     makeDiagnostic 12 ''Unkown control characters''
       ''Use of invalid control characters. Use escape sequences.''
       (escapeSourceLine buf tokenLines viewMarkers) line"
| "stringDiagnostic buf line tokenLines viewMarkers Kind_InvalidDecimalUnicode =
     makeDiagnostic 13 ''Invalid decimal unicode'' ''Use of invalid decimal unicode values.''
       (escapeSourceLine buf tokenLines viewMarkers) line"
| "stringDiagnostic buf line tokenLines viewMarkers Kind_InvalidHexUnicode =
     makeDiagnostic 14 ''Invalid hexadecimal unicode'' ''Use of invalid hexadecimal unicode values.''
       (escapeSourceLine buf tokenLines viewMarkers) line"

definition stringMarkers :: "StringError list \<Rightarrow> Kind \<Rightarrow> View list" where
  "stringMarkers errors k = map errorInput (filter (\<lambda>err2. kind err2 = k) errors)"

fun reportStringLoop ::
  "Buffer \<Rightarrow> int \<Rightarrow> View \<Rightarrow> StringError list \<Rightarrow> Kind set \<Rightarrow> StringError list \<Rightarrow> Diagnostic list" where
  "reportStringLoop buf line tokenLines errors reportedKinds [] = []"
| "reportStringLoop buf line tokenLines errors reportedKinds (err # rest) =
     (if kind err \<in> reportedKinds then reportStringLoop buf line tokenLines errors reportedKinds rest
      else stringDiagnostic buf line tokenLines (stringMarkers errors (kind err)) (kind err)
           # reportStringLoop buf line tokenLines errors (insert (kind err) reportedKinds) rest)"

definition reportStringLiteral ::
  "Buffer \<Rightarrow> BlockLine \<Rightarrow> View \<Rightarrow> int \<Rightarrow> bool \<Rightarrow> StringError list \<Rightarrow> BlockLine \<times> Diagnostic list" where
  "reportStringLiteral buf blockLine input line isTainted errors =
     (if isTainted \<or> errors = [] then (blockLine, [])
      else (blockLine,
            reportStringLoop buf line (extractViewLines buf blockLine input) errors {} errors))"

subsection \<open>Number and operator literals\<close>

fun numberIndex :: "NumberLiteralError \<Rightarrow> nat" where
  "numberIndex (NumberDecodedErrorPosition v) = 0"
| "numberIndex (NumberMissingExponent v) = 1"
| "numberIndex (NumberMissingValue v) = 2"
| "numberIndex (NumberMissingBoundary v) = 3"

fun numberInput :: "NumberLiteralError \<Rightarrow> View" where
  "numberInput (NumberDecodedErrorPosition v) = v"
| "numberInput (NumberMissingExponent v) = v"
| "numberInput (NumberMissingValue v) = v"
| "numberInput (NumberMissingBoundary v) = v"

fun numberDiagnostic :: "Buffer \<Rightarrow> int \<Rightarrow> View \<Rightarrow> View list \<Rightarrow> NumberLiteralError \<Rightarrow> Diagnostic" where
  "numberDiagnostic buf line tokenLines viewMarkers (NumberDecodedErrorPosition v) =
     reportDecodeErrorMarkers buf line tokenLines viewMarkers"
| "numberDiagnostic buf line tokenLines viewMarkers (NumberMissingExponent v) =
     makeDiagnostic 20 ''Missing exponent value''
       ''After the exponent sign an actual value is expected.''
       (escapeSourceLine buf tokenLines viewMarkers) line"
| "numberDiagnostic buf line tokenLines viewMarkers (NumberMissingValue v) =
     makeDiagnostic 21 ''Missing value'' ''After the radix sign an actual value is expected.''
       (escapeSourceLine buf tokenLines viewMarkers) line"
| "numberDiagnostic buf line tokenLines viewMarkers (NumberMissingBoundary v) =
     makeDiagnostic 22 ''Missing boundary'' ''The number literal ends with an unknown suffix.''
       (escapeSourceLine buf tokenLines viewMarkers) line"

fun reportNumberLoop ::
  "Buffer \<Rightarrow> int \<Rightarrow> View \<Rightarrow> NumberLiteralError list \<Rightarrow> nat set \<Rightarrow> NumberLiteralError list
    \<Rightarrow> Diagnostic list" where
  "reportNumberLoop buf line tokenLines errors reportedKinds [] = []"
| "reportNumberLoop buf line tokenLines errors reportedKinds (err # rest) =
     (if numberIndex err \<in> reportedKinds
      then reportNumberLoop buf line tokenLines errors reportedKinds rest
      else numberDiagnostic buf line tokenLines
             (map numberInput (filter (\<lambda>err2. numberIndex err2 = numberIndex err) errors)) err
           # reportNumberLoop buf line tokenLines errors (insert (numberIndex err) reportedKinds) rest)"

definition reportNumberLiteral ::
  "Buffer \<Rightarrow> BlockLine \<Rightarrow> View \<Rightarrow> int \<Rightarrow> bool \<Rightarrow> NumberLiteralError list
    \<Rightarrow> BlockLine \<times> Diagnostic list" where
  "reportNumberLiteral buf blockLine input line isTainted errors =
     (if isTainted \<or> errors = [] then (blockLine, [])
      else (blockLine,
            reportNumberLoop buf line (extractViewLines buf blockLine input) errors {} errors))"

fun operatorIndex :: "OperatorLiteralError \<Rightarrow> nat" where
  "operatorIndex (OperatorDecodedErrorPosition v) = 0"
| "operatorIndex (OperatorWrongClose v) = 1"
| "operatorIndex (OperatorUnexpectedClose v) = 2"
| "operatorIndex (OperatorNotClosed v) = 3"

fun operatorInput :: "OperatorLiteralError \<Rightarrow> View" where
  "operatorInput (OperatorDecodedErrorPosition v) = v"
| "operatorInput (OperatorWrongClose v) = v"
| "operatorInput (OperatorUnexpectedClose v) = v"
| "operatorInput (OperatorNotClosed v) = v"

fun operatorDiagnostic ::
  "Buffer \<Rightarrow> int \<Rightarrow> View \<Rightarrow> View list \<Rightarrow> OperatorLiteralError \<Rightarrow> Diagnostic" where
  "operatorDiagnostic buf line tokenLines viewMarkers (OperatorDecodedErrorPosition v) =
     reportDecodeErrorMarkers buf line tokenLines viewMarkers"
| "operatorDiagnostic buf line tokenLines viewMarkers (OperatorWrongClose v) =
     makeDiagnostic 30 ''Operator wrong close''
       ''The closing sign does not match the opening sign.''
       (escapeSourceLine buf tokenLines viewMarkers) line"
| "operatorDiagnostic buf line tokenLines viewMarkers (OperatorUnexpectedClose v) =
     makeDiagnostic 31 ''Operator unexpected close''
       ''There was no opening sign before the closing sign.''
       (escapeSourceLine buf tokenLines viewMarkers) line"
| "operatorDiagnostic buf line tokenLines viewMarkers (OperatorNotClosed v) =
     makeDiagnostic 32 ''Operator not closed''
       ''The operator ends before the closing sign was found.''
       (escapeSourceLine buf tokenLines viewMarkers) line"

fun reportOperatorLoop ::
  "Buffer \<Rightarrow> int \<Rightarrow> View \<Rightarrow> OperatorLiteralError list \<Rightarrow> nat set \<Rightarrow> OperatorLiteralError list
    \<Rightarrow> Diagnostic list" where
  "reportOperatorLoop buf line tokenLines errors reportedKinds [] = []"
| "reportOperatorLoop buf line tokenLines errors reportedKinds (err # rest) =
     (if operatorIndex err \<in> reportedKinds
      then reportOperatorLoop buf line tokenLines errors reportedKinds rest
      else operatorDiagnostic buf line tokenLines
             (map operatorInput (filter (\<lambda>err2. operatorIndex err2 = operatorIndex err) errors)) err
           # reportOperatorLoop buf line tokenLines errors (insert (operatorIndex err) reportedKinds) rest)"

definition reportOperatorLiteral ::
  "Buffer \<Rightarrow> BlockLine \<Rightarrow> View \<Rightarrow> int \<Rightarrow> bool \<Rightarrow> OperatorLiteralError list
    \<Rightarrow> BlockLine \<times> Diagnostic list" where
  "reportOperatorLiteral buf blockLine input line isTainted errors =
     (if isTainted \<or> errors = [] then (blockLine, [])
      else (blockLine,
            reportOperatorLoop buf line (extractViewLines buf blockLine input) errors {} errors))"

section \<open>Dispatcher\<close>

text \<open>
  The callback \<open>reportLineErrors\<close> hands to \<open>forEach\<close>: \<open>visitSome\<close> picks the reporter by
  the alternative the element holds, and does nothing for the others. The element is
  read when its turn comes, with the flags earlier reporters have left.
\<close>

definition reportToken :: "Buffer \<Rightarrow> BlockLine \<Rightarrow> nat \<Rightarrow> BlockLine \<times> Diagnostic list" where
  "reportToken buf line j =
     (case tokens line ! j of
        StringLiteral i l t es \<Rightarrow> reportStringLiteral buf line i l t es
      | NumberLiteral i l t es \<Rightarrow> reportNumberLiteral buf line i l t es
      | IdentifierLiteral i l t es \<Rightarrow> reportTokenWithDecodeErrors buf line (TokenRef j) i l t es
      | OperatorLiteral i l t es \<Rightarrow> reportOperatorLiteral buf line i l t es
      | _ \<Rightarrow> (line, []))"

definition reportInsignificant :: "Buffer \<Rightarrow> BlockLine \<Rightarrow> nat \<Rightarrow> BlockLine \<times> Diagnostic list" where
  "reportInsignificant buf line k =
     (case insignificants line ! k of
        NewLineIndentation i l t es \<Rightarrow> reportNewline buf line (InsignificantRef k) i l t es
      | CommentLiteral i l t es \<Rightarrow> reportTokenWithDecodeErrors buf line (InsignificantRef k) i l t es
      | InvalidEncoding i l t \<Rightarrow> reportInvalidEncoding buf line (InsignificantRef k) i l t
      | UnexpectedCharacter i l t \<Rightarrow> reportUnexpectedCharacter buf line (InsignificantRef k) i l t
      | _ \<Rightarrow> (line, []))"

fun reportElement :: "Buffer \<Rightarrow> BlockLine \<Rightarrow> ElemRef \<Rightarrow> BlockLine \<times> Diagnostic list" where
  "reportElement buf line (TokenRef j) = reportToken buf line j"
| "reportElement buf line (InsignificantRef k) = reportInsignificant buf line k"

text \<open>
  The run of the callback over the elements in the order of \<open>forEach\<close>: the block line
  at the end and, for each element in turn, the diagnostics emitted on its behalf.
\<close>

fun runReporters :: "Buffer \<Rightarrow> BlockLine \<Rightarrow> ElemRef list \<Rightarrow> BlockLine \<times> Diagnostic list list" where
  "runReporters buf line [] = (line, [])"
| "runReporters buf line (r # rs) =
     (case reportElement buf line r of
        (line1, ds) \<Rightarrow>
          (case runReporters buf line1 rs of (line2, dss) \<Rightarrow> (line2, ds # dss)))"

definition reportLineErrors :: "Buffer \<Rightarrow> BlockLine \<Rightarrow> BlockLine \<times> Diagnostic list" where
  "reportLineErrors buf line =
     (case runReporters buf line (forEach line) of (line', dss) \<Rightarrow> (line', concat dss))"

section \<open>Notions used in the statements\<close>

subsection \<open>Order of \<open>forEach\<close>\<close>

fun tokenIndices :: "ElemRef list \<Rightarrow> nat list" where
  "tokenIndices [] = []"
| "tokenIndices (TokenRef j # rs) = j # tokenIndices rs"
| "tokenIndices (InsignificantRef k # rs) = tokenIndices rs"

fun insignificantIndices :: "ElemRef list \<Rightarrow> nat list" where
  "insignificantIndices [] = []"
| "insignificantIndices (TokenRef j # rs) = insignificantIndices rs"
| "insignificantIndices (InsignificantRef k # rs) = k # insignificantIndices rs"

definition tokenBegin :: "Token \<Rightarrow> nat" where
  "tokenBegin t = vbegin (tokenInput t)"

definition insignificantBegin :: "Insignificant \<Rightarrow> nat" where
  "insignificantBegin i = vbegin (insignificantInput i)"

text \<open>The first invariant of a block line: both vectors are sorted by \<open>input.begin\<close>.\<close>

definition sortedByBegin :: "BlockLine \<Rightarrow> bool" where
  "sortedByBegin bl =
     (sorted (map tokenBegin (tokens bl)) \<and> sorted (map insignificantBegin (insignificants bl)))"

text \<open>
  \<open>x\<close> may be yielded before \<open>y\<close>: \<open>y\<close> does not begin before \<open>x\<close>, and an insignificant
  after a token begins strictly later.
\<close>

fun yieldedInOrder :: "BlockLine \<Rightarrow> ElemRef \<Rightarrow> ElemRef \<Rightarrow> bool" where
  "yieldedInOrder bl (TokenRef j) (InsignificantRef k) =
     (refBegin bl (TokenRef j) < refBegin bl (InsignificantRef k))"
| "yieldedInOrder bl x y = (refBegin bl x \<le> refBegin bl y)"

subsection \<open>Diagnostics and spans\<close>

fun blockHighlights :: "DocumentPart \<Rightarrow> Marker list" where
  "blockHighlights (Paragraph p) = []"
| "blockHighlights (SourceCodeBlock t hs c l) = hs"

definition diagnosticHighlights :: "Diagnostic \<Rightarrow> Marker list" where
  "diagnosticHighlights d = concat (map blockHighlights (concat (map document (parts d))))"

definition spanWithin :: "string \<Rightarrow> TextSpan \<Rightarrow> bool" where
  "spanWithin t s = (0 \<le> start s \<and> 0 \<le> length_span s \<and> start s + length_span s \<le> int (length t))"

text \<open>The elements of a list in the order of their first occurrence.\<close>

fun firstOccurrences :: "'a list \<Rightarrow> 'a list" where
  "firstOccurrences [] = []"
| "firstOccurrences (x # xs) = x # removeAll x (firstOccurrences xs)"

fun stringCode :: "Kind \<Rightarrow> nat" where
  "stringCode Kind_EndOfInput = 10"
| "stringCode Kind_InvalidEncoding = 1"
| "stringCode Kind_InvalidEscape = 11"
| "stringCode Kind_InvalidControl = 12"
| "stringCode Kind_InvalidDecimalUnicode = 13"
| "stringCode Kind_InvalidHexUnicode = 14"

subsection \<open>Escaping\<close>

text \<open>The bytes a decoded item stands for.\<close>

fun itemInput :: "Decoded \<Rightarrow> View" where
  "itemInput (DecodedCodePoint input cp) = input"
| "itemInput (DecodedError input) = input"

text \<open>
  The decoded items tile the bytes from \<open>p\<close> to \<open>e\<close>: each begins where the one before
  it ended, the first at \<open>p\<close>, and the last ends at \<open>e\<close>.
\<close>

fun inputsInOrder :: "nat \<Rightarrow> Decoded list \<Rightarrow> nat \<Rightarrow> bool" where
  "inputsInOrder p [] e = (p = e)"
| "inputsInOrder p (d # ds) e =
     (vbegin (itemInput d) = p \<and> p \<le> vend (itemInput d) \<and> inputsInOrder (vend (itemInput d)) ds e)"

definition decodedInOrder :: "View \<Rightarrow> Decoded list \<Rightarrow> bool" where
  "decodedInOrder view items = inputsInOrder (vbegin view) items (vend view)"

text \<open>
  A decoded item that sets \<open>requiresEscapes\<close>: one that goes through \<open>addEscaped\<close> (a
  code point of an escaped class, or a decode error) and whose input is not the single
  byte LF.
\<close>

fun setsRequiresEscapes :: "Buffer \<Rightarrow> Decoded \<Rightarrow> bool" where
  "setsRequiresEscapes buf (DecodedCodePoint input cp) =
     (isEscapedClass cp \<and> viewBytes buf input \<noteq> [CHR 0x0A])"
| "setsRequiresEscapes buf (DecodedError input) = (viewBytes buf input \<noteq> [CHR 0x0A])"

text \<open>
  The escaped rendering of one decoded item (the table of section 4.2 of the spec): the
  escape sequence of a code point of an escaped class and of a decode error, the
  backslash doubled, and the bytes themselves of every other code point.
\<close>

fun renderItem :: "Buffer \<Rightarrow> Decoded \<Rightarrow> char list" where
  "renderItem buf (DecodedCodePoint input cp) =
     (if isEscapedClass cp then fst (escapedText (viewBytes buf input))
      else if cp_v cp = 0x5C then viewBytes buf input @ utf8Encode cp
      else viewBytes buf input)"
| "renderItem buf (DecodedError input) = fst (escapedText (viewBytes buf input))"

text \<open>Reading a string of hexadecimal digits back.\<close>

definition hexDigitValue :: "char \<Rightarrow> nat" where
  "hexDigitValue c = length (takeWhile (\<lambda>d. d \<noteq> c) ''0123456789abcdef'')"

definition hexValue :: "char list \<Rightarrow> nat" where
  "hexValue ds = foldl (\<lambda>a c. 16 * a + hexDigitValue c) 0 ds"

subsection \<open>Taint\<close>

fun refTainted :: "BlockLine \<Rightarrow> ElemRef \<Rightarrow> bool" where
  "refTainted bl (TokenRef j) = tokenTainted (tokens bl ! j)"
| "refTainted bl (InsignificantRef k) = insignificantTainted (insignificants bl ! k)"

fun validRef :: "BlockLine \<Rightarrow> ElemRef \<Rightarrow> bool" where
  "validRef bl (TokenRef j) = (j < length (tokens bl))"
| "validRef bl (InsignificantRef k) = (k < length (insignificants bl))"

definition taintedOrSame :: "Insignificant \<Rightarrow> Insignificant \<Rightarrow> bool" where
  "taintedOrSame x y = (y = x \<or> y = taint x)"

text \<open>\<open>bl'\<close> is \<open>bl\<close> with some more insignificants tainted, and nothing else changed.\<close>

definition onlyTaints :: "BlockLine \<Rightarrow> BlockLine \<Rightarrow> bool" where
  "onlyTaints bl bl' =
     (tokens bl' = tokens bl \<and> list_all2 taintedOrSame (insignificants bl) (insignificants bl'))"

text \<open>
  The siblings a collector folds into the report of another element (section 4.3 of the
  spec): a carrier that is not tainted yet and lies inside the physical line of the
  reporting element. An unexpected character is folded in whatever its flag says.
\<close>

fun decodeCarrier :: "View \<Rightarrow> Insignificant \<Rightarrow> bool" where
  "decodeCarrier tokenLines (InvalidEncoding i l t) = (\<not> t \<and> isPartOf i tokenLines)"
| "decodeCarrier tokenLines (CommentLiteral i l t es) = (\<not> t \<and> isPartOf i tokenLines)"
| "decodeCarrier tokenLines (NewLineIndentation i l t errs) =
     (\<not> t \<and> isPartOf i tokenLines \<and> list_all holdsDecodedErrorPosition errs)"
| "decodeCarrier tokenLines x = False"

fun mixedCarrier :: "View \<Rightarrow> Insignificant \<Rightarrow> bool" where
  "mixedCarrier tokenLines (NewLineIndentation i l t errs) =
     (\<not> t \<and> isPartOf i tokenLines \<and> list_all holdsMixedIndentCharacter errs)"
| "mixedCarrier tokenLines x = False"

fun unexpectedCarrier :: "View \<Rightarrow> Insignificant \<Rightarrow> bool" where
  "unexpectedCarrier tokenLines (UnexpectedCharacter i l t) = isPartOf i tokenLines"
| "unexpectedCarrier tokenLines x = False"

text \<open>
  The elements whose reporter gathers siblings (section 4.4 of the spec), each with
  the input whose physical line is searched: a clean identifier or comment with decode
  errors, a clean \<open>InvalidEncoding\<close>, and a clean newline with a decode error of its own
  gather decode errors; a clean newline with a \<open>MixedIndentCharacter\<close> of its own gathers
  mixed indentation; a clean \<open>UnexpectedCharacter\<close> gathers unexpected characters.
\<close>

fun gathersDecodeErrors :: "BlockLine \<Rightarrow> ElemRef \<Rightarrow> View option" where
  "gathersDecodeErrors bl (TokenRef j) =
     (case tokens bl ! j of
        IdentifierLiteral i l t es \<Rightarrow> if \<not> t \<and> es \<noteq> [] then Some i else None
      | _ \<Rightarrow> None)"
| "gathersDecodeErrors bl (InsignificantRef k) =
     (case insignificants bl ! k of
        CommentLiteral i l t es \<Rightarrow> if \<not> t \<and> es \<noteq> [] then Some i else None
      | InvalidEncoding i l t \<Rightarrow> if \<not> t then Some i else None
      | NewLineIndentation i l t errs \<Rightarrow>
          if \<not> t \<and> decodedErrorInputs errs \<noteq> [] then Some i else None
      | _ \<Rightarrow> None)"

fun gathersMixedIndent :: "BlockLine \<Rightarrow> ElemRef \<Rightarrow> View option" where
  "gathersMixedIndent bl (TokenRef j) = None"
| "gathersMixedIndent bl (InsignificantRef k) =
     (case insignificants bl ! k of
        NewLineIndentation i l t errs \<Rightarrow>
          if \<not> t \<and> mixedIndentInputs errs \<noteq> [] then Some i else None
      | _ \<Rightarrow> None)"

fun gathersUnexpected :: "BlockLine \<Rightarrow> ElemRef \<Rightarrow> View option" where
  "gathersUnexpected bl (TokenRef j) = None"
| "gathersUnexpected bl (InsignificantRef k) =
     (case insignificants bl ! k of
        UnexpectedCharacter i l t \<Rightarrow> if \<not> t then Some i else None
      | _ \<Rightarrow> None)"

text \<open>
  Insignificant \<open>k\<close> is folded into the report of element \<open>r\<close> on the block line \<open>bl\<close>:
  it is another element, and a carrier of what the reporter of \<open>r\<close> gathers, on the
  physical line of \<open>r\<close>.
\<close>

definition foldedInto :: "Buffer \<Rightarrow> BlockLine \<Rightarrow> ElemRef \<Rightarrow> nat \<Rightarrow> bool" where
  "foldedInto buf bl r k =
     (k < length (insignificants bl) \<and> InsignificantRef k \<noteq> r \<and>
      ((case gathersDecodeErrors bl r of
          Some i \<Rightarrow> decodeCarrier (extractViewLines buf bl i) (insignificants bl ! k)
        | None \<Rightarrow> False)
       \<or> (case gathersMixedIndent bl r of
             Some i \<Rightarrow> mixedCarrier (extractViewLines buf bl i) (insignificants bl ! k)
           | None \<Rightarrow> False)
       \<or> (case gathersUnexpected bl r of
             Some i \<Rightarrow> unexpectedCarrier (extractViewLines buf bl i) (insignificants bl ! k)
           | None \<Rightarrow> False)))"

text \<open>The block line as the \<open>i\<close>-th element of \<open>forEach\<close> finds it in a call of
  \<open>reportLineErrors\<close>: after the reporters of the elements before it.\<close>

definition stateBefore :: "Buffer \<Rightarrow> BlockLine \<Rightarrow> nat \<Rightarrow> BlockLine" where
  "stateBefore buf bl i = fst (runReporters buf bl (take i (forEach bl)))"

subsection \<open>Inputs of the scenarios\<close>

text \<open>Scenario S2: the identifier \<open>ab\<close>, the byte FF, \<open>cd\<close>, with one decode error at byte 2.\<close>

definition invalidByteBuffer :: Buffer where
  "invalidByteBuffer = ''ab'' @ [CHR 0xFF] @ ''cd''"

definition invalidByteLine :: BlockLine where
  "invalidByteLine =
     \<lparr>tokens = [IdentifierLiteral (View 0 5) 1 False [View 2 3]], insignificants = []\<rparr>"

text \<open>Scenario S3: two identifiers with one invalid byte each, a blank between them.\<close>

definition twoIdentifiersBuffer :: Buffer where
  "twoIdentifiersBuffer = ''a'' @ [CHR 0xFF] @ ''b c'' @ [CHR 0xFE] @ ''d''"

definition twoIdentifiersLine :: BlockLine where
  "twoIdentifiersLine =
     \<lparr>tokens = [IdentifierLiteral (View 0 3) 1 False [View 1 2],
                IdentifierLiteral (View 4 7) 1 False [View 5 6]],
      insignificants = [WhiteSpaceSeparator (View 3 4)]\<rparr>"

text \<open>The same bytes scanned as two \<open>InvalidEncoding\<close> insignificants.\<close>

definition twoInvalidLine :: BlockLine where
  "twoInvalidLine =
     \<lparr>tokens = [],
      insignificants = [InvalidEncoding (View 1 2) 1 False, WhiteSpaceSeparator (View 3 4),
                        InvalidEncoding (View 5 6) 1 False]\<rparr>"

text \<open>
  Scenario S4: an unterminated string of 14 bytes with unknown escapes at 5 and 9 and
  the end of input at 14.
\<close>

definition badEscapesBuffer :: Buffer where
  "badEscapesBuffer = [CHR 0x22] @ ''abcd'' @ [CHR 0x5C] @ ''qef'' @ [CHR 0x5C] @ ''qghi''"

definition badEscapesErrors :: "StringError list" where
  "badEscapesErrors =
     [StringError Kind_InvalidEscape (View 5 7), StringError Kind_InvalidEscape (View 9 11),
      StringError Kind_EndOfInput (View 14 14)]"

definition badEscapesLine :: BlockLine where
  "badEscapesLine =
     \<lparr>tokens = [StringLiteral (View 0 14) 1 False badEscapesErrors], insignificants = []\<rparr>"

text \<open>A string of six bytes: quote, two unknown escapes, quote.\<close>

definition twoEscapesBuffer :: Buffer where
  "twoEscapesBuffer = [CHR 0x22, CHR 0x5C, CHR ''q'', CHR 0x5C, CHR ''q'', CHR 0x22]"

definition twoEscapesLine :: BlockLine where
  "twoEscapesLine =
     \<lparr>tokens = [StringLiteral (View 0 6) 1 False
                  [StringError Kind_InvalidEscape (View 1 3),
                   StringError Kind_InvalidEscape (View 3 5)]],
      insignificants = []\<rparr>"

text \<open>An unterminated string of three bytes.\<close>

definition openStringBuffer :: Buffer where
  "openStringBuffer = [CHR 0x22] @ ''ab''"

definition openStringLine :: BlockLine where
  "openStringLine =
     \<lparr>tokens = [StringLiteral (View 0 3) 1 False [StringError Kind_EndOfInput (View 3 3)]],
      insignificants = []\<rparr>"

text \<open>
  Scenario S5: the indentation of logical line 7 is a blank and a tab, with a
  \<open>MixedIndentCharacter\<close> at 0 and at 1, before the identifier \<open>x\<close>.
\<close>

definition mixedIndentBuffer :: Buffer where
  "mixedIndentBuffer = [CHR 0x20, CHR 0x09, CHR ''x'']"

definition mixedIndentLine :: BlockLine where
  "mixedIndentLine =
     \<lparr>tokens = [IdentifierLiteral (View 2 3) 7 False []],
      insignificants =
        [NewLineIndentation (View 0 2) 7 False
           [MixedIndentCharacter (View 0 1), MixedIndentCharacter (View 1 2)]]\<rparr>"

text \<open>Three bytes with a line feed in the middle.\<close>

definition lineFeedBuffer :: Buffer where
  "lineFeedBuffer = [CHR ''a'', CHR 0x0A, CHR ''b'']"

text \<open>Three bytes with a line feed in the middle and a tab at the end.\<close>

definition lineFeedTabBuffer :: Buffer where
  "lineFeedTabBuffer = [CHR ''a'', CHR 0x0A, CHR 0x09]"

text \<open>A token and an insignificant that begin at the same byte.\<close>

definition tieLine :: BlockLine where
  "tieLine =
     \<lparr>tokens = [IdentifierLiteral (View 0 1) 1 False [], IdentifierLiteral (View 2 3) 1 False []],
      insignificants = [BlockStartColon (View 0 0), WhiteSpaceSeparator (View 1 2)]\<rparr>"

section \<open>Evaluation of the scenarios\<close>

lemma utf8Encode_backslash: "utf8Encode (CodePoint 0x5C) = [CHR 0x5C]"
  by (simp add: utf8Encode_def char_of_def bit_0)

lemmas escaper_defs =
  escapeSourceLine_def escapeItems_def utf8Decode_def viewBytes_def decodeOne_def
  decodeSequence_def isScalarOfLength_def escapeInit_def
  updateMarkers_def updateMarker_def isEscapedClass_def isControl_def isSurrogate_def
  isNonCharacter_def isCombiningMark_def addEscaped_def escapedText_def ropeAddView_def
  ropeAddString_def ropeAddCodePoint_def to_string_def hexStr.simps hexDigit_def backslash_def
  unescapedMarkers_def rawSpan_def byteCount_def isContinuation_def utf8Encode_backslash

lemmas reporter_defs =
  reportLineErrors_def forEach_def reportToken_def reportInsignificant_def
  reportTokenWithDecodeErrors_def reportInvalidEncoding_def reportDecodeErrors_def
  reportNewline_def reportUnexpectedCharacter_def reportStringLiteral_def reportNumberLiteral_def
  reportOperatorLiteral_def collectDecodeErrorMarkers_def collectWith_def
  reportDecodeErrorMarkers_def makeDiagnostic_def toHighlights_def extractViewLines_def
  extractBlockLines_def lineBegin.simps lineEnd.simps isLineBreakAt_def isPartOf_def
  stringMarkers_def

lemmas scenario_defs =
  invalidByteBuffer_def invalidByteLine_def twoIdentifiersBuffer_def twoIdentifiersLine_def
  twoInvalidLine_def badEscapesBuffer_def badEscapesErrors_def badEscapesLine_def
  twoEscapesBuffer_def twoEscapesLine_def openStringBuffer_def openStringLine_def
  mixedIndentBuffer_def mixedIndentLine_def lineFeedBuffer_def lineFeedTabBuffer_def
  tieLine_def

section \<open>The escaper\<close>

subsection \<open>The span list keeps its length\<close>

lemma length_updateMarkers:
  "length (es_markers st) = length vms \<Longrightarrow> length (es_markers (updateMarkers vms p st)) = length vms"
  by (simp add: updateMarkers_def)

lemma es_markers_addEscaped: "es_markers (addEscaped buf input st) = es_markers st"
  by (simp add: addEscaped_def Let_def)

lemma length_escapeItem:
  "length (es_markers st) = length vms \<Longrightarrow> length (es_markers (escapeItem buf vms st d)) = length vms"
  by (cases d) (simp_all add: Let_def es_markers_addEscaped length_updateMarkers)

lemma length_escapeFold:
  "length (es_markers st) = length vms \<Longrightarrow>
   length (es_markers (foldl (escapeItem buf vms) st items)) = length vms"
  by (induction items arbitrary: st) (simp_all add: length_escapeItem)

lemma length_unescapedMarkers: "length (unescapedMarkers view vms ms) = length ms"
  unfolding unescapedMarkers_def by (induction vms arbitrary: ms) simp_all

lemma length_markers_escapeItems: "length (markers (escapeItems buf view vms items)) = length vms"
proof -
  have "length (es_markers (escapeInit view vms)) = length vms"
    by (simp add: escapeInit_def)
  then have "length (es_markers (foldl (escapeItem buf vms) (escapeInit view vms) items)) = length vms"
    by (rule length_escapeFold)
  then show ?thesis
    by (simp add: escapeItems_def Let_def length_unescapedMarkers length_updateMarkers)
qed

lemma length_markers_escapeSourceLine:
  "length (markers (escapeSourceLine buf view vms)) = length vms"
  by (simp add: escapeSourceLine_def length_markers_escapeItems)

subsection \<open>The fast path\<close>

text \<open>
  C4 (the code departs from it): on the fast path every marker \<open>i\<close> should get the span
  \<open>{marker_i.begin - view.begin, marker_i.byteCount}\<close>. The view \<open>abcd\<close> needs no
  escape; for the markers at bytes 0 and 2 the loop that recomputes the spans writes
  \<open>markers[0]\<close> in both rounds, so span 0 is that of the last marker, \<open>{2, 1}\<close>, where
  the claim has \<open>{0, 1}\<close>, and span 1 keeps the value of the escaping pass.
\<close>

theorem fast_path_spans_of_two_markers:
  "escapeSourceLine ''abcd'' (View 0 4) [View 0 1, View 2 3] =
     \<lparr>escaped = ''abcd'',
      markers = [\<lparr>start = 2, length_span = 1\<rparr>, \<lparr>start = 2, length_span = 1\<rparr>]\<rparr>"
  by (simp add: escaper_defs)

subsection \<open>The text returned\<close>

lemma fst_takeContinuation: "fst (takeContinuation n acc bs) \<le> length bs"
proof (induction n acc bs rule: takeContinuation.induct)
  case (1 acc bs)
  show ?case by simp
next
  case (2 n acc)
  show ?case by simp
next
  case (3 n acc c bs)
  then show ?case by (simp add: case_prod_beta)
qed

lemma fst_decodeSequence: "fst (decodeSequence n acc bs) \<le> length bs"
  using fst_takeContinuation[of n acc bs]
  by (simp add: decodeSequence_def case_prod_beta split: option.splits)

lemma fst_decodeOne: "fst (decodeOne c0 bs) \<le> length bs"
  by (simp add: decodeOne_def Let_def fst_decodeSequence)

lemma utf8DecodeAt_in_order: "inputsInOrder p (utf8DecodeAt p bs) (p + length bs)"
proof (induction p bs rule: utf8DecodeAt.induct)
  case (1 p)
  show ?case by simp
next
  case (2 p c0 bs)
  let ?k = "fst (decodeOne c0 bs)"
  have k: "?k \<le> length bs"
    by (rule fst_decodeOne)
  have e: "p + Suc ?k + length (drop ?k bs) = p + length (c0 # bs)"
    using k by simp
  have i: "inputsInOrder (p + Suc ?k) (utf8DecodeAt (p + Suc ?k) (drop ?k bs)) (p + length (c0 # bs))"
    using 2[OF refl refl] e by simp
  show ?case
    using i by (simp add: Let_def split: option.splits)
qed

lemma utf8Decode_in_order:
  assumes "vbegin view \<le> vend view" and "vend view \<le> length buf"
  shows "decodedInOrder view (utf8Decode buf view)"
proof -
  have "length (viewBytes buf view) = vend view - vbegin view"
    using assms by (simp add: viewBytes_def)
  then have "vbegin view + length (viewBytes buf view) = vend view"
    using assms by simp
  then show ?thesis
    using utf8DecodeAt_in_order[of "vbegin view" "viewBytes buf view"]
    by (simp add: decodedInOrder_def utf8Decode_def)
qed

lemma viewBytes_append:
  "a \<le> b \<Longrightarrow> b \<le> c \<Longrightarrow> viewBytes buf (View a b) @ viewBytes buf (View b c) = viewBytes buf (View a c)"
proof -
  assume ab: "a \<le> b" and bc: "b \<le> c"
  have "take (c - a) (drop a buf) = take ((b - a) + (c - b)) (drop a buf)"
    using ab bc by simp
  also have "\<dots> = take (b - a) (drop a buf) @ take (c - b) (drop (b - a) (drop a buf))"
    by (rule take_add)
  also have "drop (b - a) (drop a buf) = drop b buf"
    using ab by simp
  finally show ?thesis by (simp add: viewBytes_def)
qed

lemma viewBytes_empty: "viewBytes buf (View a a) = []"
  by (simp add: viewBytes_def)

lemma to_string_ropeAddView:
  "to_string buf (ropeAddView buf v r) = to_string buf r @ viewBytes buf v"
  by (simp add: ropeAddView_def to_string_def)

lemma to_string_ropeAddString:
  "to_string buf (ropeAddString s r) = to_string buf r @ s"
  by (simp add: ropeAddString_def to_string_def)

lemma to_string_ropeAddCodePoint:
  "to_string buf (ropeAddCodePoint c r) = to_string buf r @ utf8Encode c"
  by (simp add: ropeAddCodePoint_def to_string_def)

lemma snd_escapedText: "snd (escapedText bytes) = (bytes \<noteq> [CHR 0x0A])"
proof (cases bytes)
  case Nil
  then show ?thesis by (simp add: escapedText_def)
next
  case (Cons c cs)
  then show ?thesis by (cases cs) (simp_all add: escapedText_def)
qed

lemma output_updateMarkers: "es_output (updateMarkers vms p st) = es_output st"
  by (simp add: updateMarkers_def)

lemma begin_updateMarkers: "es_begin (updateMarkers vms p st) = es_begin st"
  by (simp add: updateMarkers_def)

lemma requires_updateMarkers: "es_requiresEscapes (updateMarkers vms p st) = es_requiresEscapes st"
  by (simp add: updateMarkers_def)

text \<open>The text of one step: what is flushed and what waits between \<open>begin\<close> and the
  end of the item is what was there before, followed by the rendering of the item.\<close>

lemma escapeItem_text:
  assumes "vbegin (itemInput d) = p" and "p \<le> vend (itemInput d)" and "es_begin st \<le> p"
  shows "to_string buf (es_output (escapeItem buf vms st d))
           @ viewBytes buf (View (es_begin (escapeItem buf vms st d)) (vend (itemInput d)))
         = to_string buf (es_output st) @ viewBytes buf (View (es_begin st) p) @ renderItem buf d
       \<and> es_begin (escapeItem buf vms st d) \<le> vend (itemInput d)"
proof (cases d)
  case (DecodedCodePoint input cp)
  with assms have i: "input = View p (vend input)" "p \<le> vend input"
    by (cases input; simp)+
  have j: "viewBytes buf (View (es_begin st) p) @ viewBytes buf input
        = viewBytes buf (View (es_begin st) (vend input))"
    using viewBytes_append[OF assms(3) i(2), of buf] i(1) by simp
  show ?thesis
    using DecodedCodePoint assms i j
    by (simp add: Let_def addEscaped_def to_string_ropeAddView to_string_ropeAddString
        to_string_ropeAddCodePoint output_updateMarkers begin_updateMarkers viewBytes_empty)
next
  case (DecodedError input)
  with assms have i: "input = View p (vend input)" "p \<le> vend input"
    by (cases input; simp)+
  show ?thesis
    using DecodedError assms i
    by (simp add: Let_def addEscaped_def to_string_ropeAddView to_string_ropeAddString
        output_updateMarkers begin_updateMarkers viewBytes_empty)
qed

lemma escapeFold_text:
  "inputsInOrder p items e \<Longrightarrow> es_begin st \<le> p \<Longrightarrow>
   to_string buf (es_output (foldl (escapeItem buf vms) st items))
     @ viewBytes buf (View (es_begin (foldl (escapeItem buf vms) st items)) e)
   = to_string buf (es_output st) @ viewBytes buf (View (es_begin st) p)
     @ concat (map (renderItem buf) items)"
proof (induction items arbitrary: p st)
  case Nil
  then show ?case by simp
next
  case (Cons d ds)
  from Cons.prems have o: "vbegin (itemInput d) = p" "p \<le> vend (itemInput d)"
      "inputsInOrder (vend (itemInput d)) ds e"
    by simp_all
  note step = escapeItem_text[OF o(1) o(2) Cons.prems(2), of buf vms]
  have "to_string buf (es_output (foldl (escapeItem buf vms) (escapeItem buf vms st d) ds))
     @ viewBytes buf (View (es_begin (foldl (escapeItem buf vms) (escapeItem buf vms st d) ds)) e)
   = to_string buf (es_output (escapeItem buf vms st d))
     @ viewBytes buf (View (es_begin (escapeItem buf vms st d)) (vend (itemInput d)))
     @ concat (map (renderItem buf) ds)"
    using Cons.IH[OF o(3), of "escapeItem buf vms st d"] step by simp
  then show ?case using step by simp
qed

lemma requires_escapeItem:
  "es_requiresEscapes (escapeItem buf vms st d) = (es_requiresEscapes st \<or> setsRequiresEscapes buf d)"
  by (cases d) (auto simp: Let_def addEscaped_def requires_updateMarkers snd_escapedText)

lemma requires_escapeFold:
  "es_requiresEscapes (foldl (escapeItem buf vms) st items)
     = (es_requiresEscapes st \<or> (\<exists>d \<in> set items. setsRequiresEscapes buf d))"
  by (induction items arbitrary: st) (auto simp: requires_escapeItem)

lemma escapeItems_text:
  assumes "decodedInOrder view items"
  shows "escaped (escapeItems buf view vms items) =
     (if \<exists>d \<in> set items. setsRequiresEscapes buf d
      then concat (map (renderItem buf) items) else viewBytes buf view)"
proof -
  let ?st = "foldl (escapeItem buf vms) (escapeInit view vms) items"
  have r: "es_requiresEscapes ?st = (\<exists>d \<in> set items. setsRequiresEscapes buf d)"
    by (simp add: requires_escapeFold escapeInit_def)
  have "to_string buf (es_output ?st) @ viewBytes buf (View (es_begin ?st) (vend view))
      = to_string buf (es_output (escapeInit view vms))
        @ viewBytes buf (View (es_begin (escapeInit view vms)) (vbegin view))
        @ concat (map (renderItem buf) items)"
    using assms unfolding decodedInOrder_def
    by (intro escapeFold_text) (simp_all add: escapeInit_def)
  moreover have "to_string buf (es_output (escapeInit view vms)) = []"
    by (simp add: escapeInit_def to_string_def)
  moreover have "es_begin (escapeInit view vms) = vbegin view"
    by (simp add: escapeInit_def)
  ultimately have t:
    "to_string buf (ropeAddView buf (View (es_begin ?st) (vend view)) (es_output ?st))
      = concat (map (renderItem buf) items)"
    by (simp add: to_string_ropeAddView viewBytes_empty)
  show ?thesis
    using r t by (simp add: escapeItems_def Let_def requires_updateMarkers)
qed

text \<open>
  C7, as stated, fails: the view \<open>a\<close>, LF, \<open>b\<close> holds an LF and nothing else that is
  escaped, and the text returned is the raw view, not \<open>a\<close>, backslash, \<open>n\<close>, LF, \<open>b\<close>.
\<close>

theorem line_feed_alone_stays_raw:
  "escaped (escapeSourceLine lineFeedBuffer (View 0 3) []) = [CHR ''a'', CHR 0x0A, CHR ''b'']
   \<and> escaped (escapeSourceLine lineFeedBuffer (View 0 3) [])
       \<noteq> [CHR ''a'', CHR 0x5C, CHR ''n'', CHR 0x0A, CHR ''b'']"
  by (simp add: scenario_defs escaper_defs)

text \<open>
  C7, amended: \<open>escapeSourceLine\<close> takes the fast path, returning the raw view as text,
  when and only when \<open>requiresEscapes\<close> stayed false, that is, when no decoded item of
  the view is a decode error or a code point of an escaped class other than the single
  byte LF. An LF met on the way goes through \<open>addEscaped\<close>, which renders it as
  backslash, \<open>n\<close>, LF and leaves the flag alone. So a view with an LF and nothing else
  that sets the flag comes back raw, the LF bare; and as soon as some item sets the
  flag, the text is the escaped rendering of every item, in which each LF is backslash,
  \<open>n\<close>, LF. This holds for every view inside the buffer and any markers.
\<close>

theorem fast_path_exactly_without_escapes:
  assumes "vbegin view \<le> vend view" and "vend view \<le> length buf"
  shows "escaped (escapeSourceLine buf view viewMarkers) =
           (if \<exists>d \<in> set (utf8Decode buf view). setsRequiresEscapes buf d
            then concat (map (renderItem buf) (utf8Decode buf view))
            else viewBytes buf view)
       \<and> escapedText [CHR 0x0A] = ([CHR 0x5C, CHR ''n'', CHR 0x0A], False)
       \<and> (\<forall>input cp. viewBytes buf input = [CHR 0x0A] \<longrightarrow>
             \<not> setsRequiresEscapes buf (DecodedCodePoint input cp)
             \<and> (isEscapedClass cp \<longrightarrow>
                  renderItem buf (DecodedCodePoint input cp) = [CHR 0x5C, CHR ''n'', CHR 0x0A]))"
proof -
  have a: "escapedText [CHR 0x0A] = ([CHR 0x5C, CHR ''n'', CHR 0x0A], False)"
    by (simp add: escapedText_def backslash_def)
  have t: "escaped (escapeSourceLine buf view viewMarkers) =
           (if \<exists>d \<in> set (utf8Decode buf view). setsRequiresEscapes buf d
            then concat (map (renderItem buf) (utf8Decode buf view))
            else viewBytes buf view)"
    unfolding escapeSourceLine_def
    by (rule escapeItems_text[OF utf8Decode_in_order[OF assms]])
  show ?thesis using a t by simp
qed

text \<open>
  C7, witness: with a marker on the LF, the view \<open>a\<close>, LF, \<open>b\<close> comes back raw, and the
  view \<open>a\<close>, LF, TAB, in which the tab sets the flag, comes back as \<open>a\<close>, backslash, \<open>n\<close>,
  LF, backslash, \<open>t\<close>.
\<close>

theorem fast_path_exactly_without_escapes_witness:
  "vbegin (View 0 3) \<le> vend (View 0 3) \<and> vend (View 0 3) \<le> length lineFeedBuffer
   \<and> escaped (escapeSourceLine lineFeedBuffer (View 0 3) [View 1 2]) = [CHR ''a'', CHR 0x0A, CHR ''b'']
   \<and> vend (View 0 3) \<le> length lineFeedTabBuffer
   \<and> escaped (escapeSourceLine lineFeedTabBuffer (View 0 3) [View 1 2])
       = [CHR ''a'', CHR 0x5C, CHR ''n'', CHR 0x0A, CHR 0x5C, CHR ''t'']"
proof -
  have d1: "utf8Decode lineFeedBuffer (View 0 3) =
      [DecodedCodePoint (View 0 1) (CodePoint 97), DecodedCodePoint (View 1 2) (CodePoint 10),
       DecodedCodePoint (View 2 3) (CodePoint 98)]"
    by (simp add: lineFeedBuffer_def escaper_defs)
  have d2: "utf8Decode lineFeedTabBuffer (View 0 3) =
      [DecodedCodePoint (View 0 1) (CodePoint 97), DecodedCodePoint (View 1 2) (CodePoint 10),
       DecodedCodePoint (View 2 3) (CodePoint 9)]"
    by (simp add: lineFeedTabBuffer_def escaper_defs)
  have v: "vbegin (View 0 3) \<le> vend (View 0 3)"
    by simp
  have h1: "vend (View 0 3) \<le> length lineFeedBuffer"
    by (simp add: lineFeedBuffer_def)
  have h2: "vend (View 0 3) \<le> length lineFeedTabBuffer"
    by (simp add: lineFeedTabBuffer_def)
  have e1: "escaped (escapeSourceLine lineFeedBuffer (View 0 3) [View 1 2]) = [CHR ''a'', CHR 0x0A, CHR ''b'']"
    using fast_path_exactly_without_escapes[OF v h1, of "[View 1 2]"] unfolding d1
    by (simp add: lineFeedBuffer_def viewBytes_def isEscapedClass_def isControl_def
        isSurrogate_def isNonCharacter_def isCombiningMark_def)
  have e2: "escaped (escapeSourceLine lineFeedTabBuffer (View 0 3) [View 1 2])
       = [CHR ''a'', CHR 0x5C, CHR ''n'', CHR 0x0A, CHR 0x5C, CHR ''t'']"
    using fast_path_exactly_without_escapes[OF v h2, of "[View 1 2]"] unfolding d2
    by (simp add: lineFeedTabBuffer_def viewBytes_def isEscapedClass_def isControl_def
        isSurrogate_def isNonCharacter_def isCombiningMark_def escapedText_def backslash_def)
  show ?thesis using v h1 h2 e1 e2 by simp
qed

subsection \<open>Hexadecimal rendering\<close>

lemma below_16_cases:
  "d < 16 \<Longrightarrow> d \<in> {0, 1, 2, 3, 4, 5, 6, 7, 8, 9, 10, 11, 12, 13, 14, 15::nat}"
  by simp arith

lemma hexDigit_in_digits: "d < 16 \<Longrightarrow> hexDigit d \<in> set ''0123456789abcdef''"
  by (drule below_16_cases) (auto simp: hexDigit_def)

lemma hexDigitValue_hexDigit: "d < 16 \<Longrightarrow> hexDigitValue (hexDigit d) = d"
  by (drule below_16_cases) (auto simp: hexDigit_def hexDigitValue_def)

lemma set_hexStr: "set (hexStr n) \<subseteq> set ''0123456789abcdef''"
proof (induction n rule: hexStr.induct)
  case (1 n)
  show ?case
  proof (cases "n < 16")
    case True
    then show ?thesis using hexDigit_in_digits[of n] by (subst hexStr.simps) simp
  next
    case False
    have "n mod 16 < 16" by simp
    then show ?thesis using 1[OF False] False hexDigit_in_digits[of "n mod 16"]
      by (subst hexStr.simps) simp
  qed
qed

lemma hexValue_snoc: "hexValue (ds @ [c]) = 16 * hexValue ds + hexDigitValue c"
  by (simp add: hexValue_def)

lemma hexValue_hexStr: "hexValue (hexStr n) = n"
proof (induction n rule: hexStr.induct)
  case (1 n)
  show ?case
  proof (cases "n < 16")
    case True
    then show ?thesis by (subst hexStr.simps) (simp add: hexValue_def hexDigitValue_hexDigit)
  next
    case False
    have "n mod 16 < 16" by simp
    then show ?thesis using 1[OF False] False
      by (subst hexStr.simps) (simp add: hexValue_snoc hexDigitValue_hexDigit)
  qed
qed

lemma length_hexStr_byte: "n < 256 \<Longrightarrow> length (hexStr n) = (if n < 16 then 1 else 2)"
proof -
  assume n: "n < 256"
  show ?thesis
  proof (cases "n < 16")
    case True
    then show ?thesis by (subst hexStr.simps) simp
  next
    case False
    with n have "n div 16 < 16" by simp
    then have "length (hexStr (n div 16)) = 1" by (subst hexStr.simps) simp
    with False show ?thesis by (subst hexStr.simps) simp
  qed
qed

lemma length_hex_of_char:
  "length (hexStr (of_char x)) = (if (of_char x :: nat) < 16 then 1 else 2)"
  by (rule length_hexStr_byte) simp

lemma length_concat_hex:
  "length (concat (map (\<lambda>x. hexStr (of_char x)) bytes))
     = length bytes + length (filter (\<lambda>x. 16 \<le> (of_char x :: nat)) bytes)"
  by (induction bytes) (auto simp: length_hex_of_char)

text \<open>
  C8, as stated, fails: a decode error over the two bytes E0 05 is rendered with three
  hexadecimal digits, \<open>e05\<close>; the byte 05 contributes \<open>5\<close>, not \<open>05\<close>.
\<close>

theorem multi_byte_error_unpadded:
  "escaped (escapeItems [CHR 0xE0, CHR 0x05] (View 0 2) [] [DecodedError (View 0 2)])
     = [CHR 0x5C, CHR ''['', CHR ''e'', CHR ''0'', CHR ''5'', CHR '']'']"
  by (simp add: escapeItems_def escapeInit_def updateMarkers_def addEscaped_def escapedText_def
      viewBytes_def ropeAddView_def ropeAddString_def to_string_def hexStr.simps hexDigit_def
      backslash_def)

text \<open>
  C8, amended: a single escaped byte other than LF, CR, TAB and NUL is rendered as
  backslash, \<open>[\<close>, the byte in lowercase hexadecimal without padding, \<open>]\<close>. An input
  of \<open>n \<ge> 2\<close> bytes is rendered as backslash, \<open>[\<close>, the bytes in lowercase hexadecimal
  one after the other, each without padding, \<open>]\<close>: a byte below 0x10 contributes one
  digit and any other byte two, so there are between \<open>n\<close> and \<open>2n\<close> digits, and \<open>2n\<close>
  exactly when no byte is below 0x10. The digits of a byte read back as the byte.
\<close>

theorem escapedText_hex_rendering:
  "(c \<noteq> CHR 0x0A \<and> c \<noteq> CHR 0x0D \<and> c \<noteq> CHR 0x09 \<and> c \<noteq> CHR 0x00 \<longrightarrow>
      fst (escapedText [c]) = [backslash, CHR ''[''] @ hexStr (of_char c) @ '']''
      \<and> length (hexStr (of_char c)) = (if (of_char c :: nat) < 16 then 1 else 2))
   \<and> (2 \<le> length bytes \<longrightarrow>
      (\<exists>digits. fst (escapedText bytes) = [backslash, CHR ''[''] @ digits @ '']''
         \<and> digits = concat (map (\<lambda>x. hexStr (of_char x)) bytes)
         \<and> length digits = length bytes + length (filter (\<lambda>x. 16 \<le> (of_char x :: nat)) bytes)
         \<and> set digits \<subseteq> set ''0123456789abcdef''))
   \<and> hexValue (hexStr (of_char x)) = of_char x
   \<and> set (hexStr (of_char x)) \<subseteq> set ''0123456789abcdef''"
proof -
  have single: "fst (escapedText [c]) = [backslash, CHR ''[''] @ hexStr (of_char c) @ '']''"
    if "c \<noteq> CHR 0x0A" "c \<noteq> CHR 0x0D" "c \<noteq> CHR 0x09" "c \<noteq> CHR 0x00"
    using that by (simp add: escapedText_def)
  have multi: "fst (escapedText bytes) =
      [backslash, CHR ''[''] @ concat (map (\<lambda>x. hexStr (of_char x)) bytes) @ '']''"
    if "2 \<le> length bytes"
    using that by (cases bytes; cases "tl bytes") (auto simp: escapedText_def)
  have digits: "set (concat (map (\<lambda>x. hexStr (of_char x)) bytes)) \<subseteq> set ''0123456789abcdef''"
    using set_hexStr by fastforce
  show ?thesis
    using single multi digits length_concat_hex[of bytes] length_hex_of_char[of c]
      hexValue_hexStr[of "of_char x"] set_hexStr[of "of_char x"]
    by blast
qed

text \<open>C8, witness: the single byte 7F, and the two bytes C3 28.\<close>

theorem escapedText_hex_rendering_witness:
  "fst (escapedText [CHR 0x7F]) = [CHR 0x5C, CHR ''['', CHR ''7'', CHR ''f'', CHR '']'']
   \<and> fst (escapedText [CHR 0xC3, CHR 0x28])
       = [CHR 0x5C, CHR ''['', CHR ''c'', CHR ''3'', CHR ''2'', CHR ''8'', CHR '']'']"
  using escapedText_hex_rendering[of "CHR 0x7F" "[CHR 0xC3, CHR 0x28]" "CHR 0x7F"]
  by (simp add: hexStr.simps hexDigit_def backslash_def)

section \<open>The order of \<open>forEach\<close>\<close>

lemma tokenIndices_forEachFrom:
  "tokenIndices (forEachFrom j k ts is) = [j..<j + length ts]"
  by (induction j k ts "is" rule: forEachFrom.induct) (auto simp: upt_rec)

lemma insignificantIndices_forEachFrom:
  "insignificantIndices (forEachFrom j k ts is) = [k..<k + length is]"
  by (induction j k ts "is" rule: forEachFrom.induct) (auto simp: upt_rec)

lemma set_forEachFrom:
  "set (forEachFrom j k ts is) =
     TokenRef ` {j..<j + length ts} \<union> InsignificantRef ` {k..<k + length is}"
proof (induction j k ts "is" rule: forEachFrom.induct)
  case (1 j k t ts i "is")
  have a: "{j..<j + length (t # ts)} = insert j {Suc j..<Suc j + length ts}" by auto
  have b: "{k..<k + length (i # is)} = insert k {Suc k..<Suc k + length is}" by auto
  show ?case using 1 unfolding a b by (auto simp del: length_Cons)
next
  case (2 j k t ts)
  have a: "{j..<j + length (t # ts)} = insert j {Suc j..<Suc j + length ts}" by auto
  show ?case using 2 unfolding a by auto
next
  case (3 j k i "is")
  have b: "{k..<k + length (i # is)} = insert k {Suc k..<Suc k + length is}" by auto
  show ?case using 3 unfolding b by auto
next
  case (4 j k)
  show ?case by simp
qed

lemma drop_Cons_nth:
  "drop j xs = y # ys \<Longrightarrow> xs ! j = y \<and> drop (Suc j) xs = ys \<and> j < length xs"
  by (metis Cons_nth_drop_Suc drop_eq_Nil linorder_not_less list.distinct(1) list.inject)

lemma drop_Cons_length: "drop j xs = y # ys \<Longrightarrow> j + length (y # ys) = length xs"
proof -
  assume d: "drop j xs = y # ys"
  then have "j < length xs" using drop_Cons_nth by metis
  moreover have "length (y # ys) = length xs - j" using d by (metis length_drop)
  ultimately show ?thesis by simp
qed

lemma sorted_map_nth_mono:
  "sorted (map f xs) \<Longrightarrow> a \<le> b \<Longrightarrow> b < length xs \<Longrightarrow> f (xs ! a) \<le> f (xs ! b)"
  by (metis (no_types, lifting) length_map nth_map order_le_less_trans sorted_nth_mono)

lemma forEachFrom_ordered:
  assumes "sortedByBegin bl"
  shows "ts = drop j (tokens bl) \<Longrightarrow> is = drop k (insignificants bl) \<Longrightarrow>
    sorted_wrt (yieldedInOrder bl) (forEachFrom j k ts is)"
proof (induction j k ts "is" rule: forEachFrom.induct)
  case (1 j k t ts i "is")
  from 1(3) have t: "tokens bl ! j = t" "drop (Suc j) (tokens bl) = ts"
    using drop_Cons_nth by metis+
  from 1(4) have i: "insignificants bl ! k = i" "drop (Suc k) (insignificants bl) = is"
    using drop_Cons_nth by metis+
  have lt: "j + length (t # ts) = length (tokens bl)"
    using 1(3) by (metis drop_Cons_length)
  have li: "k + length (i # is) = length (insignificants bl)"
    using 1(4) by (metis drop_Cons_length)
  have sT: "\<And>a b. a \<le> b \<Longrightarrow> b < length (tokens bl) \<Longrightarrow>
      tokenBegin (tokens bl ! a) \<le> tokenBegin (tokens bl ! b)"
    using assms sorted_map_nth_mono unfolding sortedByBegin_def by blast
  have sI: "\<And>a b. a \<le> b \<Longrightarrow> b < length (insignificants bl) \<Longrightarrow>
      insignificantBegin (insignificants bl ! a) \<le> insignificantBegin (insignificants bl ! b)"
    using assms sorted_map_nth_mono unfolding sortedByBegin_def by blast
  show ?case
  proof (cases "vbegin (tokenInput t) < vbegin (insignificantInput i)")
    case True
    have rest: "sorted_wrt (yieldedInOrder bl) (forEachFrom (Suc j) k ts (i # is))"
      using 1(1)[OF True] t 1(4) by simp
    have "\<forall>y \<in> set (forEachFrom (Suc j) k ts (i # is)). yieldedInOrder bl (TokenRef j) y"
    proof
      fix y assume "y \<in> set (forEachFrom (Suc j) k ts (i # is))"
      then consider a where "y = TokenRef a" "Suc j \<le> a" "a < Suc j + length ts"
        | b where "y = InsignificantRef b" "k \<le> b" "b < k + length (i # is)"
        unfolding set_forEachFrom by auto
      then show "yieldedInOrder bl (TokenRef j) y"
      proof cases
        case 1
        then show ?thesis using sT[of j a] lt by (simp add: tokenBegin_def)
      next
        case 2
        then show ?thesis using sI[of k b] li True t i by (simp add: insignificantBegin_def)
      qed
    qed
    with rest True show ?thesis by simp
  next
    case False
    have rest: "sorted_wrt (yieldedInOrder bl) (forEachFrom j (Suc k) (t # ts) is)"
      using 1(2)[OF False] i 1(3) by simp
    have "\<forall>y \<in> set (forEachFrom j (Suc k) (t # ts) is). yieldedInOrder bl (InsignificantRef k) y"
    proof
      fix y assume "y \<in> set (forEachFrom j (Suc k) (t # ts) is)"
      then consider a where "y = TokenRef a" "j \<le> a" "a < j + length (t # ts)"
        | b where "y = InsignificantRef b" "Suc k \<le> b" "b < Suc k + length is"
        unfolding set_forEachFrom by auto
      then show "yieldedInOrder bl (InsignificantRef k) y"
      proof cases
        case 1
        then show ?thesis using sT[of j a] lt False t i by (simp add: tokenBegin_def)
      next
        case 2
        then show ?thesis using sI[of k b] li by (simp add: insignificantBegin_def)
      qed
    qed
    with rest False show ?thesis by simp
  qed
next
  case (2 j k t ts)
  from 2(2) have t: "tokens bl ! j = t" "drop (Suc j) (tokens bl) = ts"
    using drop_Cons_nth by metis+
  have lt: "j + length (t # ts) = length (tokens bl)"
    using 2(2) by (metis drop_Cons_length)
  have sT: "\<And>a b. a \<le> b \<Longrightarrow> b < length (tokens bl) \<Longrightarrow>
      tokenBegin (tokens bl ! a) \<le> tokenBegin (tokens bl ! b)"
    using assms sorted_map_nth_mono unfolding sortedByBegin_def by blast
  have rest: "sorted_wrt (yieldedInOrder bl) (forEachFrom (Suc j) k ts [])"
    using 2(1) t 2(3) by simp
  have "\<forall>y \<in> set (forEachFrom (Suc j) k ts []). yieldedInOrder bl (TokenRef j) y"
  proof
    fix y assume "y \<in> set (forEachFrom (Suc j) k ts [])"
    then obtain a where "y = TokenRef a" "Suc j \<le> a" "a < Suc j + length ts"
      unfolding set_forEachFrom by auto
    then show "yieldedInOrder bl (TokenRef j) y"
      using sT[of j a] lt by (simp add: tokenBegin_def)
  qed
  with rest show ?case by simp
next
  case (3 j k i "is")
  from 3(3) have i: "insignificants bl ! k = i" "drop (Suc k) (insignificants bl) = is"
    using drop_Cons_nth by metis+
  have li: "k + length (i # is) = length (insignificants bl)"
    using 3(3) by (metis drop_Cons_length)
  have sI: "\<And>a b. a \<le> b \<Longrightarrow> b < length (insignificants bl) \<Longrightarrow>
      insignificantBegin (insignificants bl ! a) \<le> insignificantBegin (insignificants bl ! b)"
    using assms sorted_map_nth_mono unfolding sortedByBegin_def by blast
  have rest: "sorted_wrt (yieldedInOrder bl) (forEachFrom j (Suc k) [] is)"
    using 3(1) i 3(2) by simp
  have "\<forall>y \<in> set (forEachFrom j (Suc k) [] is). yieldedInOrder bl (InsignificantRef k) y"
  proof
    fix y assume "y \<in> set (forEachFrom j (Suc k) [] is)"
    then obtain b where "y = InsignificantRef b" "Suc k \<le> b" "b < Suc k + length is"
      unfolding set_forEachFrom by auto
    then show "yieldedInOrder bl (InsignificantRef k) y"
      using sI[of k b] li by (simp add: insignificantBegin_def)
  qed
  with rest show ?case by simp
next
  case (4 j k)
  show ?case by simp
qed

lemma yieldedInOrder_le: "yieldedInOrder bl x y \<Longrightarrow> refBegin bl x \<le> refBegin bl y"
  by (cases x; cases y) auto

text \<open>
  C10: for a block line whose two vectors are sorted by \<open>input.begin\<close>, \<open>forEach\<close> yields
  every token and every insignificant exactly once (the tokens it yields are the
  indices \<open>0, 1, ...\<close> of the token vector in order, and likewise for the
  insignificants), in nondecreasing order of \<open>input.begin\<close>; and when a token and an
  insignificant begin at the same byte, the insignificant is yielded before the token.
\<close>

theorem forEach_yields_in_source_order:
  assumes "sortedByBegin bl"
  shows "tokenIndices (forEach bl) = [0..<length (tokens bl)]
       \<and> insignificantIndices (forEach bl) = [0..<length (insignificants bl)]
       \<and> sorted (map (refBegin bl) (forEach bl))
       \<and> (\<forall>p q j k. p < length (forEach bl) \<and> q < length (forEach bl)
             \<and> forEach bl ! p = TokenRef j \<and> forEach bl ! q = InsignificantRef k
             \<and> refBegin bl (TokenRef j) = refBegin bl (InsignificantRef k) \<longrightarrow> q < p)"
proof -
  have ord: "sorted_wrt (yieldedInOrder bl) (forEach bl)"
    unfolding forEach_def
    using forEachFrom_ordered[OF assms, of "tokens bl" 0 "insignificants bl" 0] by simp
  have s: "sorted (map (refBegin bl) (forEach bl))"
    unfolding sorted_map using ord yieldedInOrder_le sorted_wrt_mono_rel
    by (metis (mono_tags, lifting))
  have tie: "q < p" if h: "p < length (forEach bl)" "q < length (forEach bl)"
      "forEach bl ! p = TokenRef j" "forEach bl ! q = InsignificantRef k"
      "refBegin bl (TokenRef j) = refBegin bl (InsignificantRef k)" for p q j k
  proof (rule ccontr)
    assume "\<not> q < p"
    with h have "p < q" by (metis ElemRef.distinct(1) linorder_neqE_nat)
    then have "yieldedInOrder bl (forEach bl ! p) (forEach bl ! q)"
      using ord h(2) sorted_wrt_nth_less by blast
    with h show False by simp
  qed
  show ?thesis
    using s tie
    by (simp add: forEach_def tokenIndices_forEachFrom insignificantIndices_forEachFrom)
qed

text \<open>
  C10, witness: a block line where the first token and the first insignificant both
  begin at byte 0; the insignificant comes first.
\<close>

theorem forEach_yields_in_source_order_witness:
  "sortedByBegin tieLine
   \<and> forEach tieLine = [InsignificantRef 0, TokenRef 0, InsignificantRef 1, TokenRef 1]
   \<and> tokenIndices (forEach tieLine) = [0..<length (tokens tieLine)]
   \<and> insignificantIndices (forEach tieLine) = [0..<length (insignificants tieLine)]
   \<and> sorted (map (refBegin tieLine) (forEach tieLine))"
proof -
  have h: "sortedByBegin tieLine"
    by (simp add: sortedByBegin_def tieLine_def tokenBegin_def insignificantBegin_def)
  have f: "forEach tieLine = [InsignificantRef 0, TokenRef 0, InsignificantRef 1, TokenRef 1]"
    by (simp add: forEach_def tieLine_def)
  show ?thesis using h f forEach_yields_in_source_order[OF h] by blast
qed

section \<open>The reporters\<close>

subsection \<open>Decode errors of identifiers\<close>

text \<open>
  C2 (the code departs from it): the identifier \<open>ab\<close>, FF, \<open>cd\<close> with one decode error at
  byte 2 should give one diagnostic with the singular paragraph and one highlight
  \<open>{2, 5}\<close>. The code emits one diagnostic with code 1 and the text \<open>ab\[ff]cd\<close>, but
  \<open>collectDecodeErrorMarkers\<close> walks \<open>blockLine.insignificants\<close> only and an identifier is a
  token, so no marker is collected: the paragraph is the plural one and there is no
  highlight.
\<close>

theorem invalid_byte_identifier_report:
  "reportLineErrors invalidByteBuffer invalidByteLine =
     (invalidByteLine,
      [Diagnostic (Code ''rebuild-lexer'' 1)
         [Explanation ''Invalid UTF8 Encoding''
            [Paragraph ''The UTF8-decoder encountered multiple invalid encodings'',
             SourceCodeBlock (''ab'' @ [CHR 0x5C] @ ''[ff]cd'') [] [] 1]]])"
  by (simp add: scenario_defs reporter_defs escaper_defs)

text \<open>
  C3 (the code departs from it): two carriers of decode errors on one physical line
  should share one diagnostic with code 1. For two identifiers with an invalid byte
  each (scenario S3) the code emits two such diagnostics, neither with a highlight, and
  taints nothing: the collector never sees identifiers.
\<close>

theorem two_identifiers_two_reports:
  "fst (reportLineErrors twoIdentifiersBuffer twoIdentifiersLine) = twoIdentifiersLine
   \<and> map code (snd (reportLineErrors twoIdentifiersBuffer twoIdentifiersLine))
       = [Code ''rebuild-lexer'' 1, Code ''rebuild-lexer'' 1]
   \<and> map diagnosticHighlights (snd (reportLineErrors twoIdentifiersBuffer twoIdentifiersLine))
       = [[], []]"
  by (simp add: scenario_defs reporter_defs escaper_defs diagnosticHighlights_def)

subsection \<open>Newlines\<close>

text \<open>
  C5 (the code departs from it): a newline at logical line 7 with two
  \<open>MixedIndentCharacter\<close> errors (scenario S5) should give one diagnostic with code 3,
  origin line 6 and two highlights. The code gives that diagnostic with four: the
  newline's own markers are gathered first, and the loop over the insignificants then
  meets the newline itself, clean and with errors of that one kind only, and appends
  them again. The first block of \<open>reportNewline\<close> clears its list in the same situation.
\<close>

theorem mixed_indent_report:
  "snd (reportLineErrors mixedIndentBuffer mixedIndentLine) =
     [Diagnostic (Code ''rebuild-lexer'' 3)
        [Explanation ''Mixed Indentation Characters''
           [Paragraph ''The indentation mixes tabs and spaces.'',
            SourceCodeBlock ('' '' @ [CHR 0x5C] @ ''tx'')
              [Marker \<lparr>start = 0, length_span = 1\<rparr> [], Marker \<lparr>start = 1, length_span = 2\<rparr> [],
               Marker \<lparr>start = 0, length_span = 1\<rparr> [], Marker \<lparr>start = 1, length_span = 2\<rparr> []]
              [] 6]]]"
  by (simp add: scenario_defs reporter_defs escaper_defs)

subsection \<open>String literals\<close>

lemma filter_removeAll_absent: "\<not> P x \<Longrightarrow> filter P (removeAll x xs) = filter P xs"
  by (induction xs) auto

lemma filter_insert_removeAll:
  "filter (\<lambda>y. y \<noteq> x \<and> y \<notin> R) xs = filter (\<lambda>y. y \<notin> R) (removeAll x xs)"
  by (induction xs) auto

lemma reportStringLoop_map:
  "reportStringLoop buf line tls errors reported rest =
   map (\<lambda>k. stringDiagnostic buf line tls (stringMarkers errors k) k)
       (filter (\<lambda>k. k \<notin> reported) (firstOccurrences (map kind rest)))"
proof (induction rest arbitrary: reported)
  case Nil
  show ?case by simp
next
  case (Cons err rest)
  show ?case
  proof (cases "kind err \<in> reported")
    case True
    then show ?thesis using Cons[of reported] by (simp add: filter_removeAll_absent)
  next
    case False
    then show ?thesis using Cons[of "insert (kind err) reported"]
      by (simp add: filter_insert_removeAll)
  qed
qed

lemma set_firstOccurrences: "set (firstOccurrences xs) = set xs"
  by (induction xs) auto

lemma distinct_firstOccurrences: "distinct (firstOccurrences xs)"
  by (induction xs) (auto simp: distinct_removeAll)

lemma highlights_makeDiagnostic:
  "diagnosticHighlights (makeDiagnostic n h p em l) = toHighlights (markers em)"
  by (simp add: diagnosticHighlights_def makeDiagnostic_def)

lemma highlights_stringDiagnostic:
  "diagnosticHighlights (stringDiagnostic buf line tls vms k)
     = toHighlights (markers (escapeSourceLine buf tls vms))"
  by (cases k) (simp_all add: highlights_makeDiagnostic reportDecodeErrorMarkers_def)

lemma code_stringDiagnostic:
  "code (stringDiagnostic buf line tls vms k) = Code ''rebuild-lexer'' (stringCode k)"
  by (cases k) (simp_all add: makeDiagnostic_def reportDecodeErrorMarkers_def)

lemma inj_stringCode: "stringCode k = stringCode k' \<Longrightarrow> k = k'"
  by (cases k; cases k') simp_all

text \<open>
  For a clean string literal with errors, \<open>reportStringLiteral\<close> emits one diagnostic
  for each kind among the errors and no second one for any kind (the kinds are taken
  without repetition and kinds differ in their code numbers); the diagnostic of a kind
  is built from the views of all errors of that kind, in their order, which are handed
  to the escaper as markers, and has one highlight for each; and the diagnostics come
  in the order in which the kinds first occur in the error list.
\<close>

lemma reportStringLiteral_per_kind:
  assumes "\<not> isTainted" and "errors \<noteq> []"
  shows "reportStringLiteral buf bl input line isTainted errors =
           (bl, map (\<lambda>k. stringDiagnostic buf line (extractViewLines buf bl input)
                          (map errorInput (filter (\<lambda>err. kind err = k) errors)) k)
                    (firstOccurrences (map kind errors)))
       \<and> distinct (firstOccurrences (map kind errors))
       \<and> set (firstOccurrences (map kind errors)) = kind ` set errors
       \<and> (\<forall>k vms. code (stringDiagnostic buf line (extractViewLines buf bl input) vms k)
                     = Code ''rebuild-lexer'' (stringCode k)
                 \<and> length (diagnosticHighlights
                      (stringDiagnostic buf line (extractViewLines buf bl input) vms k)) = length vms)
       \<and> (\<forall>k k'. stringCode k = stringCode k' \<longrightarrow> k = k')"
  using assms
  by (auto simp: reportStringLiteral_def reportStringLoop_map stringMarkers_def
      set_firstOccurrences distinct_firstOccurrences code_stringDiagnostic
      highlights_stringDiagnostic toHighlights_def length_markers_escapeSourceLine
      dest: inj_stringCode)

text \<open>
  C6 (the code departs from it): scenario S4, the unterminated string of 14 bytes with
  the errors \<open>InvalidEscape\<close> at bytes 5 and 9 and \<open>EndOfInput\<close> at 14. The claim has two
  diagnostics, code 11 with markers at 5 and 9, then code 10 with a marker at 14. The
  code emits the two diagnostics in this order, one per kind, each with one highlight
  for every error of its kind, but the highlights of code 11 are \<open>{9, 2}\<close> and \<open>{10, 3}\<close>
  on the raw text, where the markers at 5 and 9 are the spans \<open>{5, 2}\<close> and \<open>{9, 2}\<close>.
  Nothing in the string sets \<open>requiresEscapes\<close>, so the fast path returns the raw view,
  and its loop writes \<open>markers[0]\<close> in every round: the first highlight is the span of
  the last error, and the second keeps the value of the escaping pass, in which each
  backslash counted twice.
\<close>

theorem bad_escapes_report:
  "snd (reportLineErrors badEscapesBuffer badEscapesLine) =
     [Diagnostic (Code ''rebuild-lexer'' 11)
        [Explanation ''Unkown escape sequence''
           [Paragraph ''These Escape sequences are unknown.'',
            SourceCodeBlock badEscapesBuffer
              [Marker \<lparr>start = 9, length_span = 2\<rparr> [], Marker \<lparr>start = 10, length_span = 3\<rparr> []]
              [] 1]],
      Diagnostic (Code ''rebuild-lexer'' 10)
        [Explanation ''Unexpected end of input''
           [Paragraph ''The string was not terminated.'',
            SourceCodeBlock badEscapesBuffer [Marker \<lparr>start = 14, length_span = 0\<rparr> []] [] 1]]]
   \<and> map (rawSpan (View 0 14)) [View 5 7, View 9 11]
       = [\<lparr>start = 5, length_span = 2\<rparr>, \<lparr>start = 9, length_span = 2\<rparr>]"
  by (simp add: scenario_defs reporter_defs escaper_defs)

text \<open>
  C9 (the code departs from it): every emitted span should lie inside the text of its
  block. For a string of six bytes with two unknown escapes the text is the raw string
  and the second highlight is \<open>{4, 3}\<close>, which ends at 7. The view needs no escape, so
  the fast path returns the raw view, but its loop rewrites \<open>markers[0]\<close> only; the
  second span keeps the offset of the escaping pass, where each backslash counted twice.
\<close>

theorem span_beyond_text:
  "snd (reportLineErrors twoEscapesBuffer twoEscapesLine) =
     [Diagnostic (Code ''rebuild-lexer'' 11)
        [Explanation ''Unkown escape sequence''
           [Paragraph ''These Escape sequences are unknown.'',
            SourceCodeBlock twoEscapesBuffer
              [Marker \<lparr>start = 3, length_span = 2\<rparr> [], Marker \<lparr>start = 4, length_span = 3\<rparr> []]
              [] 1]]]
   \<and> length twoEscapesBuffer = 6
   \<and> \<not> spanWithin twoEscapesBuffer \<lparr>start = 4, length_span = 3\<rparr>"
  by (simp add: scenario_defs reporter_defs escaper_defs spanWithin_def)

section \<open>Taint and the second pass\<close>

lemma taint_taint: "taint (taint x) = taint x"
  by (cases x) simp_all

lemma taintedOrSame_refl: "taintedOrSame x x"
  by (simp add: taintedOrSame_def)

lemma taintedOrSame_trans: "taintedOrSame x y \<Longrightarrow> taintedOrSame y z \<Longrightarrow> taintedOrSame x z"
  by (auto simp: taintedOrSame_def taint_taint)

lemma taintedOrSame_tainted:
  "taintedOrSame x y \<Longrightarrow> insignificantTainted x \<Longrightarrow> insignificantTainted y"
  by (cases x) (auto simp: taintedOrSame_def)

lemma onlyTaints_refl: "onlyTaints bl bl"
  by (simp add: onlyTaints_def list_all2_refl taintedOrSame_refl)

lemma onlyTaints_trans: "onlyTaints a b \<Longrightarrow> onlyTaints b c \<Longrightarrow> onlyTaints a c"
  unfolding onlyTaints_def
  using list_all2_trans[of taintedOrSame taintedOrSame taintedOrSame] taintedOrSame_trans
  by metis

lemma onlyTaints_tainted:
  "onlyTaints a b \<Longrightarrow> validRef a r \<Longrightarrow> refTainted a r \<Longrightarrow> refTainted b r"
  by (cases r) (auto simp: onlyTaints_def dest: list_all2_nthD taintedOrSame_tainted)

lemma collectDecodeErrorsOf_taints: "taintedOrSame x (snd (collectDecodeErrorsOf tls nt x))"
  by (cases x) (simp_all add: taintedOrSame_def)

lemma collectMixedIndentOf_taints: "taintedOrSame x (snd (collectMixedIndentOf tls nt x))"
  by (cases x) (simp_all add: taintedOrSame_def)

lemma collectUnexpectedOf_taints: "taintedOrSame x (snd (collectUnexpectedOf tls nt x))"
  by (cases x) (simp_all add: taintedOrSame_def)

lemma forInsignificants_taints:
  assumes "\<And>nt x. taintedOrSame x (snd (body nt x))"
  shows "list_all2 taintedOrSame ts (snd (forInsignificants body k tok ts vms))"
proof (induction ts arbitrary: k vms)
  case Nil
  show ?case by simp
next
  case (Cons t ts)
  obtain new t' where b: "body (InsignificantRef k \<noteq> tok) t = (new, t')"
    by (cases "body (InsignificantRef k \<noteq> tok) t")
  obtain vms' ts' where r: "forInsignificants body (Suc k) tok ts (vms @ new) = (vms', ts')"
    by (cases "forInsignificants body (Suc k) tok ts (vms @ new)")
  have "taintedOrSame t t'"
    using assms[of t "InsignificantRef k \<noteq> tok"] b by simp
  moreover have "list_all2 taintedOrSame ts ts'"
    using Cons[of "Suc k" "vms @ new"] r by simp
  ultimately show ?case using b r by simp
qed

lemma collectWith_taints:
  assumes "\<And>nt x. taintedOrSame x (snd (body nt x))"
  shows "onlyTaints bl (snd (collectWith body vms bl tok))"
  using forInsignificants_taints[OF assms]
  by (simp add: collectWith_def onlyTaints_def case_prod_beta)

lemma reportDecodeErrors_taints: "onlyTaints bl (fst (reportDecodeErrors buf bl tok input line))"
  by (simp add: reportDecodeErrors_def collectDecodeErrorMarkers_def Let_def case_prod_beta
      collectWith_taints collectDecodeErrorsOf_taints)

lemma reportNewline_taints: "onlyTaints bl (fst (reportNewline buf bl nli input line t errs))"
proof -
  let ?tls = "extractViewLines buf bl input"
  have a: "onlyTaints bl (snd (collectDecodeErrorMarkers vms bl ?tls nli))" for vms
    unfolding collectDecodeErrorMarkers_def
    by (rule collectWith_taints) (rule collectDecodeErrorsOf_taints)
  have b: "onlyTaints bl' (snd (collectWith (collectMixedIndentOf ?tls) vms bl' nli))" for vms bl'
    by (rule collectWith_taints) (rule collectMixedIndentOf_taints)
  have ab: "onlyTaints bl (snd (collectWith (collectMixedIndentOf ?tls) vms'
                (snd (collectDecodeErrorMarkers vms bl ?tls nli)) nli))" for vms vms'
    using a b onlyTaints_trans by blast
  show ?thesis
    by (simp add: reportNewline_def Let_def case_prod_beta a b ab onlyTaints_refl)
qed

lemma reportUnexpectedCharacter_taints:
  "onlyTaints bl (fst (reportUnexpectedCharacter buf bl uc input line t))"
  by (simp add: reportUnexpectedCharacter_def Let_def onlyTaints_refl case_prod_beta
      collectWith_taints collectUnexpectedOf_taints)

lemma reportToken_taints: "onlyTaints bl (fst (reportToken buf bl j))"
  by (simp add: reportToken_def reportStringLiteral_def reportNumberLiteral_def
      reportOperatorLiteral_def reportTokenWithDecodeErrors_def onlyTaints_refl
      reportDecodeErrors_taints split: Token.splits)

lemma reportInsignificant_taints: "onlyTaints bl (fst (reportInsignificant buf bl k))"
  by (simp add: reportInsignificant_def reportTokenWithDecodeErrors_def reportInvalidEncoding_def
      onlyTaints_refl reportDecodeErrors_taints reportNewline_taints
      reportUnexpectedCharacter_taints split: Insignificant.splits)

lemma reportElement_taints: "onlyTaints bl (fst (reportElement buf bl r))"
  by (cases r) (simp_all add: reportToken_taints reportInsignificant_taints)

lemma reportElement_tainted: "refTainted bl r \<Longrightarrow> reportElement buf bl r = (bl, [])"
proof (cases r)
  case (TokenRef j)
  assume "refTainted bl r"
  with TokenRef show ?thesis
    by (cases "tokens bl ! j")
       (simp_all add: reportToken_def reportStringLiteral_def reportNumberLiteral_def
          reportOperatorLiteral_def reportTokenWithDecodeErrors_def)
next
  case (InsignificantRef k)
  assume "refTainted bl r"
  with InsignificantRef show ?thesis
    by (cases "insignificants bl ! k")
       (simp_all add: reportInsignificant_def reportNewline_def reportInvalidEncoding_def
          reportUnexpectedCharacter_def reportTokenWithDecodeErrors_def)
qed

lemma runReporters_taints: "onlyTaints bl (fst (runReporters buf bl rs))"
proof (induction rs arbitrary: bl)
  case Nil
  show ?case by (simp add: onlyTaints_refl)
next
  case (Cons r rs)
  obtain bl1 ds where e: "reportElement buf bl r = (bl1, ds)"
    by (cases "reportElement buf bl r")
  have "onlyTaints bl bl1"
    using reportElement_taints[of bl buf r] e by simp
  moreover have "onlyTaints bl1 (fst (runReporters buf bl1 rs))"
    by (rule Cons)
  ultimately show ?case
    using e by (auto simp: split: prod.splits intro: onlyTaints_trans)
qed

lemma runReporters_tainted:
  "onlyTaints bl0 bl \<Longrightarrow> \<forall>r \<in> set rs. validRef bl0 r \<Longrightarrow> i < length rs \<Longrightarrow>
   refTainted bl0 (rs ! i) \<Longrightarrow> snd (runReporters buf bl rs) ! i = []"
proof (induction rs arbitrary: bl i)
  case Nil
  then show ?case by simp
next
  case (Cons r rs)
  obtain bl1 ds where e: "reportElement buf bl r = (bl1, ds)"
    by (cases "reportElement buf bl r")
  obtain bl2 dss where rr: "runReporters buf bl1 rs = (bl2, dss)"
    by (cases "runReporters buf bl1 rs")
  show ?case
  proof (cases i)
    case 0
    with Cons.prems have "refTainted bl r"
      using onlyTaints_tainted[of bl0 bl r] by simp
    then have "ds = []"
      using reportElement_tainted[of bl r buf] e by simp
    with 0 e rr show ?thesis by simp
  next
    case (Suc i')
    have "onlyTaints bl bl1"
      using reportElement_taints[of bl buf r] e by simp
    with Cons.prems have o: "onlyTaints bl0 bl1"
      using onlyTaints_trans by blast
    have "snd (runReporters buf bl1 rs) ! i' = []"
      using Cons.IH[OF o, of i'] Cons.prems Suc by simp
    with Suc e rr show ?thesis by simp
  qed
qed

lemma forEach_valid: "\<forall>r \<in> set (forEach bl). validRef bl r"
proof -
  have "set (forEach bl) =
      TokenRef ` {0..<length (tokens bl)} \<union> InsignificantRef ` {0..<length (insignificants bl)}"
    by (simp add: forEach_def set_forEachFrom)
  then show ?thesis by auto
qed

lemma onlyTaints_length: "onlyTaints a b \<Longrightarrow> length (insignificants b) = length (insignificants a)"
  by (auto simp: onlyTaints_def dest: list_all2_lengthD)

lemma onlyTaints_nth:
  "onlyTaints a b \<Longrightarrow> k < length (insignificants a) \<Longrightarrow>
   taintedOrSame (insignificants a ! k) (insignificants b ! k)"
  by (auto simp: onlyTaints_def dest: list_all2_nthD)

lemma onlyTaints_keeps_taint:
  "onlyTaints a b \<Longrightarrow> k < length (insignificants a) \<Longrightarrow>
   insignificantTainted (insignificants a ! k) \<Longrightarrow> insignificantTainted (insignificants b ! k)"
  using onlyTaints_nth taintedOrSame_tainted by blast

lemma forInsignificants_nth:
  "n < length ts \<Longrightarrow>
   snd (forInsignificants body k tok ts vms) ! n =
     snd (body (InsignificantRef (k + n) \<noteq> tok) (ts ! n))"
proof (induction ts arbitrary: k vms n)
  case Nil
  then show ?case by simp
next
  case (Cons t ts)
  show ?case
  proof (cases n)
    case 0
    then show ?thesis by (simp add: case_prod_beta)
  next
    case (Suc m)
    with Cons.prems have "m < length ts" by simp
    from Cons.IH[OF this, of "Suc k"] Suc show ?thesis by (simp add: case_prod_beta)
  qed
qed

lemma collectWith_nth:
  "k < length (insignificants bl) \<Longrightarrow>
   insignificants (snd (collectWith body vms bl tok)) ! k =
     snd (body (InsignificantRef k \<noteq> tok) (insignificants bl ! k))"
  using forInsignificants_nth[of k "insignificants bl" body 0 tok vms]
  by (simp add: collectWith_def case_prod_beta)

lemma decodeCarrier_tainted:
  "decodeCarrier tls x \<Longrightarrow> insignificantTainted (snd (collectDecodeErrorsOf tls True x))"
  by (cases x) simp_all

lemma mixedCarrier_tainted:
  "mixedCarrier tls x \<Longrightarrow> taintedOrSame x y \<Longrightarrow>
   insignificantTainted (snd (collectMixedIndentOf tls True y))"
  by (cases x) (auto simp: taintedOrSame_def)

lemma unexpectedCarrier_tainted:
  "unexpectedCarrier tls x \<Longrightarrow> insignificantTainted (snd (collectUnexpectedOf tls True x))"
  by (cases x) (simp_all add: isPartOf_def)

lemma collectDecodeErrorsOf_own: "snd (collectDecodeErrorsOf tls False x) = x"
  by (cases x) simp_all

lemma collectMixedIndentOf_own: "snd (collectMixedIndentOf tls False x) = x"
  by (cases x) simp_all

lemma collectUnexpectedOf_own: "snd (collectUnexpectedOf tls False x) = x"
  by (cases x) simp_all

lemma reportDecodeErrors_folds:
  "k < length (insignificants bl) \<Longrightarrow> InsignificantRef k \<noteq> tok \<Longrightarrow>
   decodeCarrier (extractViewLines buf bl input) (insignificants bl ! k) \<Longrightarrow>
   insignificantTainted (insignificants (fst (reportDecodeErrors buf bl tok input line)) ! k)"
  by (simp add: reportDecodeErrors_def Let_def case_prod_beta collectDecodeErrorMarkers_def
      collectWith_nth decodeCarrier_tainted)

lemma reportNewline_folds_decode:
  assumes "k < length (insignificants bl)" and "InsignificantRef k \<noteq> nli"
    and "\<not> t" and "decodedErrorInputs errs \<noteq> []"
    and "decodeCarrier (extractViewLines buf bl input) (insignificants bl ! k)"
  shows "insignificantTainted (insignificants (fst (reportNewline buf bl nli input line t errs)) ! k)"
proof -
  let ?tls = "extractViewLines buf bl input"
  let ?vms = "if length (decodedErrorInputs errs) = length errs then [] else decodedErrorInputs errs"
  let ?bl1 = "snd (collectDecodeErrorMarkers ?vms bl ?tls nli)"
  have e: "errs \<noteq> []" using assms(4) by auto
  have a: "insignificantTainted (insignificants ?bl1 ! k)"
    using assms by (simp add: collectDecodeErrorMarkers_def collectWith_nth decodeCarrier_tainted)
  have o: "onlyTaints bl ?bl1"
    unfolding collectDecodeErrorMarkers_def
    by (rule collectWith_taints) (rule collectDecodeErrorsOf_taints)
  have l: "k < length (insignificants ?bl1)"
    using assms(1) onlyTaints_length[OF o] by simp
  have b: "insignificantTainted
      (insignificants (snd (collectWith (collectMixedIndentOf ?tls) vms ?bl1 nli)) ! k)" for vms
    using onlyTaints_keeps_taint[OF collectWith_taints l a, of "collectMixedIndentOf ?tls"]
      collectMixedIndentOf_taints by blast
  show ?thesis
    using assms(3,4) e a b by (simp add: reportNewline_def Let_def case_prod_beta)
qed

lemma reportNewline_folds_mixed:
  assumes "k < length (insignificants bl)" and "InsignificantRef k \<noteq> nli"
    and "\<not> t" and "mixedIndentInputs errs \<noteq> []"
    and "mixedCarrier (extractViewLines buf bl input) (insignificants bl ! k)"
  shows "insignificantTainted (insignificants (fst (reportNewline buf bl nli input line t errs)) ! k)"
proof -
  let ?tls = "extractViewLines buf bl input"
  have e: "errs \<noteq> []" using assms(4) by auto
  have m: "insignificantTainted
      (insignificants (snd (collectWith (collectMixedIndentOf ?tls) vms bl1 nli)) ! k)"
    if "onlyTaints bl bl1" for vms bl1
  proof -
    have l: "k < length (insignificants bl1)"
      using assms(1) onlyTaints_length[OF that] by simp
    have "taintedOrSame (insignificants bl ! k) (insignificants bl1 ! k)"
      using onlyTaints_nth[OF that assms(1)] .
    then show ?thesis
      using assms(2,5) l by (simp add: collectWith_nth mixedCarrier_tainted)
  qed
  have o: "onlyTaints bl (snd (collectDecodeErrorMarkers vms bl ?tls nli))" for vms
    unfolding collectDecodeErrorMarkers_def
    by (rule collectWith_taints) (rule collectDecodeErrorsOf_taints)
  show ?thesis
    using assms(3,4) e m[OF o] m[OF onlyTaints_refl]
    by (simp add: reportNewline_def Let_def case_prod_beta)
qed

lemma reportUnexpectedCharacter_folds:
  "k < length (insignificants bl) \<Longrightarrow> InsignificantRef k \<noteq> uc \<Longrightarrow> \<not> t \<Longrightarrow>
   unexpectedCarrier (extractViewLines buf bl input) (insignificants bl ! k) \<Longrightarrow>
   insignificantTainted
     (insignificants (fst (reportUnexpectedCharacter buf bl uc input line t)) ! k)"
  by (simp add: reportUnexpectedCharacter_def Let_def case_prod_beta collectWith_nth
      unexpectedCarrier_tainted)

lemma reportElement_folds:
  assumes "foldedInto buf bl r k"
  shows "insignificantTainted (insignificants (fst (reportElement buf bl r)) ! k)"
proof -
  from assms have k: "k < length (insignificants bl)" and n: "InsignificantRef k \<noteq> r"
    by (simp_all add: foldedInto_def)
  from assms consider
      (decode) i where "gathersDecodeErrors bl r = Some i"
        "decodeCarrier (extractViewLines buf bl i) (insignificants bl ! k)"
    | (mixed) i where "gathersMixedIndent bl r = Some i"
        "mixedCarrier (extractViewLines buf bl i) (insignificants bl ! k)"
    | (unexpected) i where "gathersUnexpected bl r = Some i"
        "unexpectedCarrier (extractViewLines buf bl i) (insignificants bl ! k)"
    by (auto simp: foldedInto_def split: option.splits)
  then show ?thesis
  proof cases
    case decode
    show ?thesis
    proof (cases r)
      case (TokenRef j)
      with decode k n show ?thesis
        by (cases "tokens bl ! j")
           (auto simp: reportToken_def reportTokenWithDecodeErrors_def reportDecodeErrors_folds
              split: if_splits)
    next
      case (InsignificantRef m)
      with decode k n show ?thesis
        by (cases "insignificants bl ! m")
           (auto simp: reportInsignificant_def reportTokenWithDecodeErrors_def
              reportInvalidEncoding_def reportDecodeErrors_folds reportNewline_folds_decode
              split: if_splits)
    qed
  next
    case mixed
    show ?thesis
    proof (cases r)
      case (TokenRef j)
      with mixed show ?thesis by simp
    next
      case (InsignificantRef m)
      with mixed k n show ?thesis
        by (cases "insignificants bl ! m")
           (auto simp: reportInsignificant_def reportNewline_folds_mixed split: if_splits)
    qed
  next
    case unexpected
    show ?thesis
    proof (cases r)
      case (TokenRef j)
      with unexpected show ?thesis by simp
    next
      case (InsignificantRef m)
      with unexpected k n show ?thesis
        by (cases "insignificants bl ! m")
           (auto simp: reportInsignificant_def reportUnexpectedCharacter_folds split: if_splits)
    qed
  qed
qed

lemma reportNewline_own:
  assumes "k < length (insignificants bl)"
  shows "insignificants (fst (reportNewline buf bl (InsignificantRef k) input line t errs)) ! k
           = insignificants bl ! k"
proof -
  let ?tls = "extractViewLines buf bl input"
  have a: "insignificants (snd (collectDecodeErrorMarkers vms bl ?tls (InsignificantRef k))) ! k
             = insignificants bl ! k" for vms
    using assms by (simp add: collectDecodeErrorMarkers_def collectWith_nth collectDecodeErrorsOf_own)
  have o: "onlyTaints bl (snd (collectDecodeErrorMarkers vms bl ?tls (InsignificantRef k)))" for vms
    unfolding collectDecodeErrorMarkers_def
    by (rule collectWith_taints) (rule collectDecodeErrorsOf_taints)
  have l: "k < length (insignificants (snd (collectDecodeErrorMarkers vms bl ?tls (InsignificantRef k))))"
    for vms
    using assms onlyTaints_length[OF o] by simp
  have b: "insignificants (snd (collectWith (collectMixedIndentOf ?tls) vms'
              (snd (collectDecodeErrorMarkers vms bl ?tls (InsignificantRef k)))
              (InsignificantRef k))) ! k = insignificants bl ! k" for vms vms'
    using l a by (simp add: collectWith_nth collectMixedIndentOf_own)
  have c: "insignificants (snd (collectWith (collectMixedIndentOf ?tls) vms' bl
              (InsignificantRef k))) ! k = insignificants bl ! k" for vms'
    using assms by (simp add: collectWith_nth collectMixedIndentOf_own)
  show ?thesis
    by (simp add: reportNewline_def Let_def case_prod_beta a b c)
qed

lemma reportElement_own:
  assumes "k < length (insignificants bl)"
  shows "insignificants (fst (reportElement buf bl (InsignificantRef k))) ! k
           = insignificants bl ! k"
  using assms
  by (cases "insignificants bl ! k")
     (simp_all add: reportInsignificant_def reportTokenWithDecodeErrors_def
        reportInvalidEncoding_def reportDecodeErrors_def reportUnexpectedCharacter_def
        collectDecodeErrorMarkers_def Let_def case_prod_beta collectWith_nth
        collectDecodeErrorsOf_own collectUnexpectedOf_own reportNewline_own)

lemma runReporters_append:
  "runReporters buf bl (xs @ ys) =
     (fst (runReporters buf (fst (runReporters buf bl xs)) ys),
      snd (runReporters buf bl xs) @ snd (runReporters buf (fst (runReporters buf bl xs)) ys))"
  by (induction xs arbitrary: bl) (simp_all add: case_prod_beta)

lemma runReporters_step:
  assumes "i < length rs"
  shows "fst (runReporters buf bl rs) =
     fst (runReporters buf
            (fst (reportElement buf (fst (runReporters buf bl (take i rs))) (rs ! i)))
            (drop (Suc i) rs))"
proof -
  have "rs = take i rs @ (rs ! i # drop (Suc i) rs)"
    using assms by (simp add: id_take_nth_drop)
  then have "runReporters buf bl rs = runReporters buf bl (take i rs @ (rs ! i # drop (Suc i) rs))"
    by simp
  then show ?thesis
    unfolding runReporters_append by (simp add: case_prod_beta)
qed

lemma stateBefore_taints: "onlyTaints bl (stateBefore buf bl i)"
  unfolding stateBefore_def by (rule runReporters_taints)

lemma first_pass_folds:
  assumes "i < length (forEach bl)" and "foldedInto buf (stateBefore buf bl i) (forEach bl ! i) k"
  shows "insignificantTainted (insignificants (fst (reportLineErrors buf bl)) ! k)"
proof -
  let ?b = "stateBefore buf bl i"
  let ?c = "fst (reportElement buf ?b (forEach bl ! i))"
  have k: "k < length (insignificants ?b)"
    using assms(2) by (simp add: foldedInto_def)
  have t: "insignificantTainted (insignificants ?c ! k)"
    using assms(2) by (rule reportElement_folds)
  have kc: "k < length (insignificants ?c)"
    using k onlyTaints_length[OF reportElement_taints[of ?b buf "forEach bl ! i"]] by simp
  have "fst (reportLineErrors buf bl) = fst (runReporters buf ?c (drop (Suc i) (forEach bl)))"
    using runReporters_step[OF assms(1), of buf bl]
    by (simp add: reportLineErrors_def case_prod_beta stateBefore_def)
  then show ?thesis
    using onlyTaints_keeps_taint[OF runReporters_taints kc t] by simp
qed

lemma reportLineErrors_taints: "onlyTaints bl (fst (reportLineErrors buf bl))"
  using runReporters_taints[of bl buf "forEach bl"]
  by (simp add: reportLineErrors_def case_prod_beta)

text \<open>
  C1, as stated, fails: an unterminated string is reported in the first pass and, no
  reporter having tainted it, reported again in the second.
\<close>

theorem second_pass_reports_again:
  "snd (reportLineErrors openStringBuffer (fst (reportLineErrors openStringBuffer openStringLine)))
     = [Diagnostic (Code ''rebuild-lexer'' 10)
          [Explanation ''Unexpected end of input''
             [Paragraph ''The string was not terminated.'',
              SourceCodeBlock openStringBuffer [Marker \<lparr>start = 3, length_span = 0\<rparr> []] [] 1]]]"
  by (simp add: scenario_defs reporter_defs escaper_defs)

text \<open>
  C1, amended: after one complete call of \<open>reportLineErrors\<close> on a block line, every
  insignificant that was folded as a sibling into the report of another element (an
  untainted carrier of decode errors, mixed indentation or an unexpected character on
  the physical line of the reporting element) has \<open>isTainted\<close> set, and a second call on
  the same block line emits no diagnostic on its behalf: every reporter short-circuits
  on a tainted element. A call never clears a flag of an insignificant and changes
  nothing else of it. The report of an insignificant leaves its own flag as it is, so
  an element that reported may be reported again. The diagnostics of a call are those
  emitted for its elements in the order of \<open>forEach\<close>; \<open>stateBefore buf bl i\<close> is the block
  line as the \<open>i\<close>-th of them finds it in the first call.
\<close>

theorem first_pass_taints_folded_siblings:
  assumes "reportLineErrors buf bl = (bl1, ds1)"
  shows "length (insignificants bl1) = length (insignificants bl)
   \<and> (\<forall>k < length (insignificants bl).
        insignificants bl1 ! k = insignificants bl ! k
        \<or> insignificants bl1 ! k = taint (insignificants bl ! k))
   \<and> (\<forall>i k. i < length (forEach bl) \<and> foldedInto buf (stateBefore buf bl i) (forEach bl ! i) k \<longrightarrow>
        insignificantTainted (insignificants bl1 ! k)
        \<and> InsignificantRef k \<in> set (forEach bl1)
        \<and> (\<forall>p < length (forEach bl1). forEach bl1 ! p = InsignificantRef k \<longrightarrow>
              snd (runReporters buf bl1 (forEach bl1)) ! p = []))
   \<and> (\<forall>i k. i < length (forEach bl) \<and> forEach bl ! i = InsignificantRef k \<longrightarrow>
        insignificants (fst (reportElement buf (stateBefore buf bl i) (InsignificantRef k))) ! k
          = insignificants (stateBefore buf bl i) ! k)
   \<and> (\<forall>p < length (forEach bl1). refTainted bl1 (forEach bl1 ! p) \<longrightarrow>
        snd (runReporters buf bl1 (forEach bl1)) ! p = [])
   \<and> snd (reportLineErrors buf bl1) = concat (snd (runReporters buf bl1 (forEach bl1)))"
proof -
  have bl1: "bl1 = fst (reportLineErrors buf bl)"
    using assms by simp
  have o: "onlyTaints bl bl1"
    unfolding bl1 by (rule reportLineErrors_taints)
  have len: "length (insignificants bl1) = length (insignificants bl)"
    using o by (rule onlyTaints_length)
  have mono: "\<forall>k < length (insignificants bl).
        insignificants bl1 ! k = insignificants bl ! k
        \<or> insignificants bl1 ! k = taint (insignificants bl ! k)"
    using onlyTaints_nth[OF o] by (simp add: taintedOrSame_def)
  have silent: "\<forall>p < length (forEach bl1). refTainted bl1 (forEach bl1 ! p) \<longrightarrow>
        snd (runReporters buf bl1 (forEach bl1)) ! p = []"
    using runReporters_tainted[OF onlyTaints_refl forEach_valid, of _ bl1 buf] by blast
  have folded: "insignificantTainted (insignificants bl1 ! k)
        \<and> InsignificantRef k \<in> set (forEach bl1)
        \<and> (\<forall>p < length (forEach bl1). forEach bl1 ! p = InsignificantRef k \<longrightarrow>
              snd (runReporters buf bl1 (forEach bl1)) ! p = [])"
    if i: "i < length (forEach bl)"
      and f: "foldedInto buf (stateBefore buf bl i) (forEach bl ! i) k" for i k
  proof -
    have t: "insignificantTainted (insignificants bl1 ! k)"
      unfolding bl1 using i f by (rule first_pass_folds)
    have "k < length (insignificants (stateBefore buf bl i))"
      using f by (simp add: foldedInto_def)
    then have "k < length (insignificants bl1)"
      using onlyTaints_length[OF stateBefore_taints[of bl buf i]] len by simp
    then have m: "InsignificantRef k \<in> set (forEach bl1)"
      by (simp add: forEach_def set_forEachFrom)
    show ?thesis using t m silent by simp
  qed
  have own: "insignificants (fst (reportElement buf (stateBefore buf bl i) (InsignificantRef k))) ! k
          = insignificants (stateBefore buf bl i) ! k"
    if i: "i < length (forEach bl)" and r: "forEach bl ! i = InsignificantRef k" for i k
  proof -
    have "InsignificantRef k \<in> set (forEach bl)"
      using i r by (metis nth_mem)
    then have "k < length (insignificants bl)"
      by (auto simp: forEach_def set_forEachFrom)
    then have "k < length (insignificants (stateBefore buf bl i))"
      using onlyTaints_length[OF stateBefore_taints[of bl buf i]] by simp
    then show ?thesis by (rule reportElement_own)
  qed
  have run: "snd (reportLineErrors buf bl1) = concat (snd (runReporters buf bl1 (forEach bl1)))"
    by (simp add: reportLineErrors_def case_prod_beta)
  show ?thesis
    using len mono folded own silent run by blast
qed

text \<open>
  C1, witness: two \<open>InvalidEncoding\<close> insignificants on one line. The first pass reports
  the first, folds the second into that report and taints it; the second pass reports
  the first again, and nothing for the second.
\<close>

theorem first_pass_taints_folded_siblings_witness:
  "foldedInto twoIdentifiersBuffer (stateBefore twoIdentifiersBuffer twoInvalidLine 0)
      (forEach twoInvalidLine ! 0) 2
   \<and> fst (reportLineErrors twoIdentifiersBuffer twoInvalidLine) =
       \<lparr>tokens = [],
        insignificants = [InvalidEncoding (View 1 2) 1 False, WhiteSpaceSeparator (View 3 4),
                          InvalidEncoding (View 5 6) 1 True]\<rparr>
   \<and> insignificantTainted
        (insignificants (fst (reportLineErrors twoIdentifiersBuffer twoInvalidLine)) ! 2)
   \<and> snd (runReporters twoIdentifiersBuffer
             (fst (reportLineErrors twoIdentifiersBuffer twoInvalidLine))
             (forEach (fst (reportLineErrors twoIdentifiersBuffer twoInvalidLine)))) ! 2 = []
   \<and> length (snd (reportLineErrors twoIdentifiersBuffer
                     (fst (reportLineErrors twoIdentifiersBuffer twoInvalidLine)))) = 1"
proof -
  let ?bl1 = "fst (reportLineErrors twoIdentifiersBuffer twoInvalidLine)"
  have p: "reportLineErrors twoIdentifiersBuffer twoInvalidLine
      = (?bl1, snd (reportLineErrors twoIdentifiersBuffer twoInvalidLine))"
    by simp
  have e: "?bl1 =
     \<lparr>tokens = [],
      insignificants = [InvalidEncoding (View 1 2) 1 False, WhiteSpaceSeparator (View 3 4),
                        InvalidEncoding (View 5 6) 1 True]\<rparr>"
    by (simp add: scenario_defs reporter_defs escaper_defs)
  have f0: "forEach twoInvalidLine = [InsignificantRef 0, InsignificantRef 1, InsignificantRef 2]"
    by (simp add: forEach_def twoInvalidLine_def)
  have f1: "forEach ?bl1 = [InsignificantRef 0, InsignificantRef 1, InsignificantRef 2]"
    unfolding e by (simp add: forEach_def)
  have h: "foldedInto twoIdentifiersBuffer (stateBefore twoIdentifiersBuffer twoInvalidLine 0)
      (forEach twoInvalidLine ! 0) 2"
    unfolding f0
    by (simp add: foldedInto_def stateBefore_def scenario_defs extractViewLines_def
        extractBlockLines_def lineBegin.simps lineEnd.simps isLineBreakAt_def isPartOf_def)
  have i: "(0::nat) < length (forEach twoInvalidLine)"
    unfolding f0 by simp
  note t = first_pass_taints_folded_siblings[OF p]
  have a: "insignificantTainted (insignificants ?bl1 ! 2)"
    using t i h by blast
  have q: "(2::nat) < length (forEach ?bl1)" "forEach ?bl1 ! 2 = InsignificantRef 2"
    unfolding f1 by simp_all
  have b: "snd (runReporters twoIdentifiersBuffer ?bl1 (forEach ?bl1)) ! 2 = []"
    using t i h q by blast
  have c: "length (snd (reportLineErrors twoIdentifiersBuffer ?bl1)) = 1"
    unfolding e by (simp add: scenario_defs reporter_defs escaper_defs)
  show ?thesis using h e a b c by simp
qed

end
